theory Spec2Isabelle
  imports Main "HOL-Library.Word" "HOL-Library.Sublist"
begin

section \<open>JavaScript strings\<close>

text \<open>
  A JavaScript string is a finite sequence of 16-bit code units, and every such sequence
  is a string. The source texts are ASCII except for one emoji (U+1F4F1), which is the
  surrogate pair \<open>0xD83D 0xDCF1\<close>; \<open>ascii\<close> embeds an ASCII fragment unit by unit.
\<close>

type_synonym jsstring = "16 word list"

definition ascii :: "string \<Rightarrow> jsstring" where
  "ascii s = map of_char s"

text \<open>The lines of a template literal, joined by the line feeds between them.\<close>

fun js_lines :: "jsstring list \<Rightarrow> jsstring" where
  "js_lines [] = []"
| "js_lines [l] = l"
| "js_lines (l # k # ls) = l @ 0x0A # js_lines (k # ls)"

text \<open>
  \<open>StringIndexOf(string, searchValue, 0)\<close> of ECMAScript: the least index at which
  \<open>searchValue\<close> occurs in \<open>string\<close>, or not-found (\<open>None\<close>). Both call sites
  (\<open>includes\<close> and \<open>replace\<close>) search from index 0.
\<close>

fun StringIndexOf :: "'a list \<Rightarrow> 'a list \<Rightarrow> nat option" where
  "StringIndexOf [] m = (if m = [] then Some 0 else None)"
| "StringIndexOf (c # s) m =
     (if prefix m (c # s) then Some 0 else map_option Suc (StringIndexOf s m))"

definition String_includes :: "jsstring \<Rightarrow> jsstring \<Rightarrow> bool" where
  "String_includes s m = (StringIndexOf s m \<noteq> None)"

text \<open>
  \<open>GetSubstitution\<close> for a string pattern: there are no captures, so of the \<open>$\<close>
  patterns of the replacement template only \<open>$$\<close>, \<open>$&\<close>, \<open>$`\<close> and \<open>$'\<close> are
  substituted (a dollar sign, the match, the text before it, the text after it); any other
  code unit, a \<open>$\<close> before something else included, is copied.
\<close>

fun GetSubstitution :: "jsstring \<Rightarrow> jsstring \<Rightarrow> jsstring \<Rightarrow> jsstring \<Rightarrow> jsstring" where
  "GetSubstitution matched preceding following [] = []"
| "GetSubstitution matched preceding following [c] = [c]"
| "GetSubstitution matched preceding following (c # d # t) =
     (if c = 0x24 then
        (if d = 0x24 then 0x24 # GetSubstitution matched preceding following t
         else if d = 0x26 then matched @ GetSubstitution matched preceding following t
         else if d = 0x60 then preceding @ GetSubstitution matched preceding following t
         else if d = 0x27 then following @ GetSubstitution matched preceding following t
         else c # GetSubstitution matched preceding following (d # t))
      else c # GetSubstitution matched preceding following (d # t))"

text \<open>
  \<open>String.prototype.replace(searchValue, replaceValue)\<close> with two strings: the first
  occurrence of \<open>searchValue\<close> is replaced by the expanded template; a string without an
  occurrence is returned as it is.
\<close>

definition String_replace :: "jsstring \<Rightarrow> jsstring \<Rightarrow> jsstring \<Rightarrow> jsstring" where
  "String_replace s m r =
     (case StringIndexOf s m of
        None \<Rightarrow> s
      | Some p \<Rightarrow>
          (let preceding = take p s; following = drop (p + length m) s
           in preceding @ GetSubstitution m preceding following r @ following))"

section \<open>The content injector \<open>makeOffline\<close>\<close>

text \<open>The template literal \<open>offlineScripts\<close> (lines 8 to 139 of make-offline.js).\<close>

definition offlineScripts_lines :: "jsstring list" where
  \<open>offlineScripts_lines = [
    ascii '''',
    ascii ''    <!-- Offline functionality injected by makeOffline() -->'',
    ascii ''    <style id="offline-styles">'',
    ascii ''      .offline-banner {'',
    ascii ''        position: fixed;'',
    ascii ''        top: 0;'',
    ascii ''        left: 0;'',
    ascii ''        right: 0;'',
    ascii ''        background: #f8d7da;'',
    ascii ''        color: #721c24;'',
    ascii ''        padding: 10px;'',
    ascii ''        text-align: center;'',
    ascii ''        z-index: 10000;'',
    ascii ''        display: none;'',
    ascii ''        font-family: -apple-system, BlinkMacSystemFont, 'Segoe UI', Roboto, sans-serif;'',
    ascii ''      }'',
    ascii ''      .offline-banner.show { display: block; }'',
    ascii ''      .update-banner {'',
    ascii ''        position: fixed;'',
    ascii ''        bottom: 20px;'',
    ascii ''        right: 20px;'',
    ascii ''        background: #fff3cd;'',
    ascii ''        color: #856404;'',
    ascii ''        padding: 15px;'',
    ascii ''        border-radius: 5px;'',
    ascii ''        box-shadow: 0 2px 10px rgba(0,0,0,0.2);'',
    ascii ''        display: none;'',
    ascii ''        z-index: 10001;'',
    ascii ''        font-family: -apple-system, BlinkMacSystemFont, 'Segoe UI', Roboto, sans-serif;'',
    ascii ''      }'',
    ascii ''      .update-banner.show { display: block; }'',
    ascii ''      .update-banner button {'',
    ascii ''        background: #007bff;'',
    ascii ''        color: white;'',
    ascii ''        border: none;'',
    ascii ''        padding: 5px 10px;'',
    ascii ''        border-radius: 3px;'',
    ascii ''        cursor: pointer;'',
    ascii ''        margin-left: 10px;'',
    ascii ''      }'',
    ascii ''    </style>'',
    ascii ''    '',
    ascii ''    <div class="offline-banner" id="offline-banner">'',
    ascii ''      '' @ [0xD83D, 0xDCF1] @ ascii '' You're offline! Showing cached content.'',
    ascii ''    </div>'',
    ascii ''    '',
    ascii ''    <div class="update-banner" id="update-banner">'',
    ascii ''      '' @ [0xD83D, 0xDCF1] @ ascii '' New version available!'',
    ascii ''      <button onclick="window.offlineHelper.updateApp()">Update</button>'',
    ascii ''    </div>'',
    ascii '''',
    ascii ''    <script>'',
    ascii ''      // Offline helper functionality'',
    ascii ''      window.offlineHelper = {'',
    ascii ''        isOnline: navigator.onLine,'',
    ascii ''        serviceWorker: null,'',
    ascii ''        '',
    ascii ''        init() {'',
    ascii ''          this.updateStatus();'',
    ascii ''          this.registerServiceWorker();'',
    ascii ''          this.setupEventListeners();'',
    ascii ''        },'',
    ascii ''        '',
    ascii ''        async registerServiceWorker() {'',
    ascii ''          if ('serviceWorker' in navigator) {'',
    ascii ''            try {'',
    ascii ''              const registration = await navigator.serviceWorker.register('/sw.js');'',
    ascii ''              this.serviceWorker = registration;'',
    ascii ''              '',
    ascii ''              registration.addEventListener('updatefound', () => {'',
    ascii ''                const newWorker = registration.installing;'',
    ascii ''                newWorker.addEventListener('statechange', () => {'',
    ascii ''                  if (newWorker.state === 'installed' && navigator.serviceWorker.controller) {'',
    ascii ''                    this.showUpdateBanner();'',
    ascii ''                  }'',
    ascii ''                });'',
    ascii ''              });'',
    ascii ''            } catch (err) {'',
    ascii ''              console.log('SW registration failed:', err);'',
    ascii ''            }'',
    ascii ''          }'',
    ascii ''        },'',
    ascii ''        '',
    ascii ''        setupEventListeners() {'',
    ascii ''          window.addEventListener('online', () => {'',
    ascii ''            this.isOnline = true;'',
    ascii ''            this.updateStatus();'',
    ascii ''          });'',
    ascii ''          '',
    ascii ''          window.addEventListener('offline', () => {'',
    ascii ''            this.isOnline = false;'',
    ascii ''            this.updateStatus();'',
    ascii ''          });'',
    ascii ''          '',
    ascii ''          if ('serviceWorker' in navigator) {'',
    ascii ''            navigator.serviceWorker.addEventListener('message', event => {'',
    ascii ''              if (event.data.type === 'CACHE_UPDATED') {'',
    ascii ''                this.showUpdateBanner();'',
    ascii ''              }'',
    ascii ''            });'',
    ascii ''          }'',
    ascii ''        },'',
    ascii ''        '',
    ascii ''        updateStatus() {'',
    ascii ''          const banner = document.getElementById('offline-banner');'',
    ascii ''          if (this.isOnline) {'',
    ascii ''            banner.classList.remove('show');'',
    ascii ''          } else {'',
    ascii ''            banner.classList.add('show');'',
    ascii ''          }'',
    ascii ''        },'',
    ascii ''        '',
    ascii ''        showUpdateBanner() {'',
    ascii ''          document.getElementById('update-banner').classList.add('show');'',
    ascii ''        },'',
    ascii ''        '',
    ascii ''        updateApp() {'',
    ascii ''          if (this.serviceWorker && this.serviceWorker.waiting) {'',
    ascii ''            this.serviceWorker.waiting.postMessage({ type: 'SKIP_WAITING' });'',
    ascii ''            window.location.reload();'',
    ascii ''          }'',
    ascii ''        }'',
    ascii ''      };'',
    ascii ''      '',
    ascii ''      // Initialize when DOM is ready'',
    ascii ''      if (document.readyState === 'loading') {'',
    ascii ''        document.addEventListener('DOMContentLoaded', () => window.offlineHelper.init());'',
    ascii ''      } else {'',
    ascii ''        window.offlineHelper.init();'',
    ascii ''      }'',
    ascii ''    </script>'',
    ascii ''  '']\<close>

definition offlineScripts :: jsstring where
  "offlineScripts = js_lines offlineScripts_lines"

text \<open>The closing body marker searched for by \<open>makeOffline\<close>.\<close>

definition body_close :: jsstring where
  "body_close = ascii ''</body>''"

definition makeOffline :: "jsstring \<Rightarrow> jsstring" where
  "makeOffline html =
     (if String_includes html body_close
      then String_replace html body_close (offlineScripts @ body_close)
      else html @ offlineScripts)"


section \<open>The generated service worker\<close>

text \<open>
  \<open>generateServiceWorker()\<close> has no parameter and returns a template literal without
  substitutions (lines 154 to 235 of make-offline.js). What a JavaScript function can
  read without a parameter is the state around it at the time of the call: the clock,
  the random source, the global bindings. The model hands that state to the function as
  its argument; the body reads nothing of it.
\<close>

definition policyScript_lines :: "jsstring list" where
  \<open>policyScript_lines = [
    ascii '''',
    ascii ''const CACHE_NAME = 'auto-offline-v1';'',
    ascii '''',
    ascii ''// Install event - just activate immediately'',
    ascii ''self.addEventListener('install', event => {'',
    ascii ''  console.log('SW Install - Auto-caching mode');'',
    ascii ''  event.waitUntil(self.skipWaiting());'',
    ascii ''});'',
    ascii '''',
    ascii ''// Activate event - clean up old caches'',
    ascii ''self.addEventListener('activate', event => {'',
    ascii ''  console.log('SW Activate');'',
    ascii ''  event.waitUntil('',
    ascii ''    caches.keys().then(cacheNames => {'',
    ascii ''      return Promise.all('',
    ascii ''        cacheNames.map(cacheName => {'',
    ascii ''          if (cacheName !== CACHE_NAME) {'',
    ascii ''            console.log('Deleting old cache:', cacheName);'',
    ascii ''            return caches.delete(cacheName);'',
    ascii ''          }'',
    ascii ''        })'',
    ascii ''      );'',
    ascii ''    }).then(() => self.clients.claim())'',
    ascii ''  );'',
    ascii ''});'',
    ascii '''',
    ascii ''// Fetch event - cache everything automatically'',
    ascii ''self.addEventListener('fetch', event => {'',
    ascii ''  if (event.request.method !== 'GET') return;'',
    ascii ''  '',
    ascii ''  event.respondWith('',
    ascii ''    fetch(event.request)'',
    ascii ''      .then(response => {'',
    ascii ''        // Always cache successful responses (except service worker itself)'',
    ascii ''        if (response.ok && !event.request.url.includes('/sw.js')) {'',
    ascii ''          const responseClone = response.clone();'',
    ascii ''          caches.open(CACHE_NAME)'',
    ascii ''            .then(cache => {'',
    ascii ''              cache.put(event.request, responseClone);'',
    ascii ''              console.log('Cached:', event.request.url);'',
    ascii ''            });'',
    ascii ''        }'',
    ascii ''        return response;'',
    ascii ''      })'',
    ascii ''      .catch(() => {'',
    ascii ''        // When offline, try to serve from cache'',
    ascii ''        return caches.match(event.request)'',
    ascii ''          .then(cachedResponse => {'',
    ascii ''            if (cachedResponse) {'',
    ascii ''              console.log('Serving from cache:', event.request.url);'',
    ascii ''              return cachedResponse;'',
    ascii ''            }'',
    ascii ''            '',
    ascii ''            // For API calls, return a generic offline response'',
    ascii ''            if (event.request.url.includes('/api/')) {'',
    ascii ''              return new Response(JSON.stringify({'',
    ascii ''                error: 'Offline','',
    ascii ''                message: 'No cached data available','',
    ascii ''                timestamp: new Date().toISOString()'',
    ascii ''              }), {'',
    ascii ''                headers: { 'Content-Type': 'application/json' },'',
    ascii ''                status: 503'',
    ascii ''              });'',
    ascii ''            }'',
    ascii ''            '',
    ascii ''            // For other requests, return a basic offline message'',
    ascii ''            return new Response('Offline - No cached version available', {'',
    ascii ''              status: 503,'',
    ascii ''              statusText: 'Service Unavailable'' @ [0x27],
    ascii ''            });'',
    ascii ''          });'',
    ascii ''      })'',
    ascii ''  );'',
    ascii ''});'',
    ascii '''',
    ascii ''// Handle skip waiting message'',
    ascii ''self.addEventListener('message', event => {'',
    ascii ''  if (event.data && event.data.type === 'SKIP_WAITING') {'',
    ascii ''    self.skipWaiting();'',
    ascii ''  }'',
    ascii ''});'',
    ascii '''']\<close>

definition policyScript :: jsstring where
  "policyScript = js_lines policyScript_lines"

record ambient =
  ambient_clock :: jsstring
  ambient_random :: nat
  ambient_globals :: "jsstring \<Rightarrow> jsstring option"

definition generateServiceWorker :: "ambient \<Rightarrow> jsstring" where
  "generateServiceWorker surroundings = policyScript"

subsection \<open>Requests, responses and the cache storage of the runtime\<close>

text \<open>
  The emitted script runs in the service worker runtime of a browser. What it reads and
  calls there is modelled as far as the script uses it: a request by its method (the
  field \<open>request_method\<close>), its URL and its headers; a response by status, reason
  phrase, headers and payload text; the outcome of \<open>fetch\<close> as a resolved or a rejected
  promise; the reading of the clock as the text that \<open>new Date().toISOString()\<close>
  returns. A handler is run to completion: the world it returns is the one in which the
  promises it started have settled, so the write that the fetch listener starts without
  waiting for it is in that world, if the runtime accepts it.
\<close>

record request =
  request_method :: jsstring
  url :: jsstring
  request_headers :: "(jsstring \<times> jsstring) list"

record response =
  status :: nat
  statusText :: jsstring
  headers :: "(jsstring \<times> jsstring) list"
  body :: jsstring

text \<open>\<open>response.ok\<close>: the status is in the range 200 to 299.\<close>

definition response_ok :: "response \<Rightarrow> bool" where
  "response_ok r = (200 \<le> status r \<and> status r \<le> 299)"

datatype fetch_outcome = Resolved response | Rejected

text \<open>
  Header lists. Names compare without regard to ASCII case; the value of a name is the
  values of its headers in order, joined by a comma and a space, or nothing.
\<close>

definition ascii_lowercase :: "jsstring \<Rightarrow> jsstring" where
  "ascii_lowercase s = map (\<lambda>c. if 0x41 \<le> c \<and> c \<le> 0x5A then c + 0x20 else c) s"

definition header_list_get :: "(jsstring \<times> jsstring) list \<Rightarrow> jsstring \<Rightarrow> jsstring option" where
  "header_list_get hs name =
     (case filter (\<lambda>h. ascii_lowercase (fst h) = ascii_lowercase name) hs of
        [] \<Rightarrow> None
      | h # others \<Rightarrow> Some (foldl (\<lambda>v k. v @ [0x2C, 0x20] @ snd k) (snd h) others))"

text \<open>
  The field values of a \<open>Vary\<close> header: its value split at the commas, each part
  without the spaces and tabs around it. No \<open>Vary\<close> header, no field values.
\<close>

fun split_commas :: "jsstring \<Rightarrow> jsstring list" where
  "split_commas [] = [[]]"
| "split_commas (c # s) =
     (if c = 0x2C then [] # split_commas s
      else (case split_commas s of [] \<Rightarrow> [[c]] | x # xs \<Rightarrow> (c # x) # xs))"

definition strip_http_space :: "jsstring \<Rightarrow> jsstring" where
  "strip_http_space s =
     rev (dropWhile (\<lambda>c. c = 0x20 \<or> c = 0x09) (rev (dropWhile (\<lambda>c. c = 0x20 \<or> c = 0x09) s)))"

definition vary_field_values :: "(jsstring \<times> jsstring) list \<Rightarrow> jsstring list" where
  "vary_field_values hs =
     (case header_list_get hs (ascii ''Vary'') of
        None \<Rightarrow> []
      | Some v \<Rightarrow> map strip_http_space (split_commas v))"

text \<open>
  The Cache interface. A cache is the list of its entries, request and response, in the
  order in which they were put; \<open>CacheStorage\<close> is the list of the named caches in the
  order of their creation.

  ``Request matches cached item'' with the default options, as \<open>caches.match(request)\<close>
  and \<open>cache.put(request, response)\<close> use it: the cached request is a GET request, the
  two URLs are equal when their fragments are left out, and for every field value of the
  cached response's \<open>Vary\<close> header, the field value is not \<open>*\<close> and the two requests
  have the same value for the header it names.
\<close>

type_synonym cache = "(request \<times> response) list"
type_synonym cache_storage = "(jsstring \<times> cache) list"

definition url_without_fragment :: "jsstring \<Rightarrow> jsstring" where
  "url_without_fragment u = takeWhile (\<lambda>c. c \<noteq> 0x23) u"

definition request_matches_cached_item :: "request \<Rightarrow> request \<Rightarrow> response \<Rightarrow> bool" where
  "request_matches_cached_item requestQuery cached cachedResponse =
     (request_method cached = ascii ''GET'' \<and>
      url_without_fragment (url requestQuery) = url_without_fragment (url cached) \<and>
      list_all
        (\<lambda>fieldValue. fieldValue \<noteq> [0x2A] \<and>
           header_list_get (request_headers cached) fieldValue =
           header_list_get (request_headers requestQuery) fieldValue)
        (vary_field_values (headers cachedResponse)))"

text \<open>
  \<open>cache.match(request)\<close>: nothing for a request that is not a GET request, else the
  response of the first entry that the request matches.
\<close>

definition cache_match :: "cache \<Rightarrow> request \<Rightarrow> response option" where
  "cache_match c req =
     (if request_method req \<noteq> ascii ''GET'' then None
      else map_option snd
        (find (\<lambda>e. request_matches_cached_item req (fst e) (snd e)) c))"

text \<open>
  \<open>cache.put(request, response)\<close> is rejected (\<open>None\<close>) when the scheme of the URL is
  neither \<open>http\<close> nor \<open>https\<close>, when the method is not GET, when the status is 206 and
  when a field value of the response's \<open>Vary\<close> header is \<open>*\<close>. Otherwise the entries
  that the request matches are removed and the new entry is added at the end. (The
  rejection for a body already read does not arise: the listener puts a fresh clone.)
\<close>

definition url_scheme :: "jsstring \<Rightarrow> jsstring" where
  "url_scheme u = takeWhile (\<lambda>c. c \<noteq> 0x3A) u"

definition cache_put :: "cache \<Rightarrow> request \<Rightarrow> response \<Rightarrow> cache option" where
  "cache_put c req resp =
     (if (url_scheme (url req) \<noteq> ascii ''http'' \<and> url_scheme (url req) \<noteq> ascii ''https'') \<or>
         request_method req \<noteq> ascii ''GET''
      then None
      else if status resp = 206 then None
      else if [0x2A] \<in> set (vary_field_values (headers resp)) then None
      else Some (filter (\<lambda>e. \<not> request_matches_cached_item req (fst e) (snd e)) c @
                 [(req, resp)]))"

definition caches_keys :: "cache_storage \<Rightarrow> jsstring list" where
  "caches_keys cs = map fst cs"

definition caches_open :: "cache_storage \<Rightarrow> jsstring \<Rightarrow> cache_storage" where
  "caches_open cs name = (if name \<in> set (caches_keys cs) then cs else cs @ [(name, [])])"

definition caches_delete :: "cache_storage \<Rightarrow> jsstring \<Rightarrow> cache_storage" where
  "caches_delete cs name = filter (\<lambda>e. fst e \<noteq> name) cs"

text \<open>\<open>caches.match(request)\<close> asks every cache in turn and answers with the first hit.\<close>

fun caches_match :: "cache_storage \<Rightarrow> request \<Rightarrow> response option" where
  "caches_match [] req = None"
| "caches_match (e # cs) req =
     (case cache_match (snd e) req of
        Some r \<Rightarrow> Some r
      | None \<Rightarrow> caches_match cs req)"

text \<open>
  \<open>caches.open(name).then(cache => cache.put(request, response))\<close>: the cache is
  opened, and created if there is none of the name, before the put; a put that is
  rejected leaves the cache as it is, and nobody hears of the rejection.
\<close>

definition caches_open_put :: "cache_storage \<Rightarrow> jsstring \<Rightarrow> request \<Rightarrow> response \<Rightarrow> cache_storage" where
  "caches_open_put cs name req resp =
     map (\<lambda>e. if fst e = name
               then (fst e, (case cache_put (snd e) req resp of None \<Rightarrow> snd e | Some c \<Rightarrow> c))
               else e)
       (caches_open cs name)"

text \<open>
  What a handler does to its surroundings, in the order in which it does it: lines
  written to the console, caches deleted, puts called (accepted or not), clients claimed.
\<close>

datatype effect =
    ConsoleLog "jsstring list"
  | CacheDelete jsstring
  | CachePut jsstring request response
  | ClientsClaim

record world =
  caches :: cache_storage
  trace :: "effect list"

text \<open>The caches deleted in a trace, in the order of their deletion.\<close>

fun deleted_caches :: "effect list \<Rightarrow> jsstring list" where
  "deleted_caches [] = []"
| "deleted_caches (CacheDelete n # es) = n # deleted_caches es"
| "deleted_caches (e # es) = deleted_caches es"

definition console_log :: "jsstring list \<Rightarrow> world \<Rightarrow> world" where
  "console_log args w = w\<lparr>trace := trace w @ [ConsoleLog args]\<rparr>"

subsection \<open>\<open>new Response\<close> and \<open>JSON.stringify\<close>\<close>

text \<open>
  \<open>new Response(body, init)\<close> with a string body: status 200 and an empty reason phrase
  unless \<open>init\<close> gives them, and the content type of a string body added unless the
  headers of \<open>init\<close> name one (header names compare without regard to ASCII case).
\<close>

record response_init =
  init_status :: "nat option"
  init_statusText :: "jsstring option"
  init_headers :: "(jsstring \<times> jsstring) list"

definition new_Response :: "jsstring \<Rightarrow> response_init \<Rightarrow> response" where
  "new_Response b init =
     \<lparr>status = (case init_status init of None \<Rightarrow> 200 | Some s \<Rightarrow> s),
      statusText = (case init_statusText init of None \<Rightarrow> [] | Some t \<Rightarrow> t),
      headers =
        (if ascii ''content-type'' \<in> set (map (\<lambda>h. ascii_lowercase (fst h)) (init_headers init))
         then init_headers init
         else init_headers init @ [(ascii ''content-type'', ascii ''text/plain;charset=UTF-8'')]),
      body = b\<rparr>"

text \<open>
  \<open>QuoteJSONString\<close>: the named escapes, \<open>\uXXXX\<close> for the other control characters
  and for a surrogate without its partner, every other code unit as it is.
\<close>

definition hex_digit :: "16 word \<Rightarrow> 16 word" where
  "hex_digit d = (if d < 10 then 0x30 + d else 0x57 + d)"

definition unicode_escape :: "16 word \<Rightarrow> jsstring" where
  "unicode_escape c =
     [0x5C, 0x75, hex_digit (drop_bit 12 c), hex_digit (take_bit 4 (drop_bit 8 c)),
      hex_digit (take_bit 4 (drop_bit 4 c)), hex_digit (take_bit 4 c)]"

definition is_leading_surrogate :: "16 word \<Rightarrow> bool" where
  "is_leading_surrogate c = (0xD800 \<le> c \<and> c \<le> 0xDBFF)"

definition is_trailing_surrogate :: "16 word \<Rightarrow> bool" where
  "is_trailing_surrogate c = (0xDC00 \<le> c \<and> c \<le> 0xDFFF)"

definition quote_unit :: "16 word \<Rightarrow> jsstring" where
  "quote_unit c =
     (if c = 0x08 then ascii [CHR 0x5C, CHR ''b'']
      else if c = 0x09 then ascii [CHR 0x5C, CHR ''t'']
      else if c = 0x0A then ascii [CHR 0x5C, CHR ''n'']
      else if c = 0x0C then ascii [CHR 0x5C, CHR ''f'']
      else if c = 0x0D then ascii [CHR 0x5C, CHR ''r'']
      else if c = 0x22 then ascii [CHR 0x5C, CHR 0x22]
      else if c = 0x5C then ascii [CHR 0x5C, CHR 0x5C]
      else if c < 0x20 \<or> is_leading_surrogate c \<or> is_trailing_surrogate c
        then unicode_escape c
      else [c])"

fun quote_units :: "jsstring \<Rightarrow> jsstring" where
  "quote_units [] = []"
| "quote_units [c] = quote_unit c"
| "quote_units (c # d # t) =
     (if is_leading_surrogate c \<and> is_trailing_surrogate d
      then c # d # quote_units t
      else quote_unit c @ quote_units (d # t))"

definition QuoteJSONString :: "jsstring \<Rightarrow> jsstring" where
  "QuoteJSONString s = 0x22 # quote_units s @ [0x22]"

text \<open>\<open>JSON.stringify\<close> of an object whose properties all hold strings, without indentation.\<close>

fun json_members :: "(jsstring \<times> jsstring) list \<Rightarrow> jsstring" where
  "json_members [] = []"
| "json_members [p] = QuoteJSONString (fst p) @ 0x3A # QuoteJSONString (snd p)"
| "json_members (p # q # ps) =
     QuoteJSONString (fst p) @ 0x3A # QuoteJSONString (snd p) @ 0x2C # json_members (q # ps)"

definition JSON_stringify :: "(jsstring \<times> jsstring) list \<Rightarrow> jsstring" where
  "JSON_stringify props = 0x7B # json_members props @ [0x7D]"

subsection \<open>The handlers of the emitted script\<close>

definition CACHE_NAME :: jsstring where
  "CACHE_NAME = ascii ''auto-offline-v1''"

definition cache_put_effect :: "jsstring \<Rightarrow> request \<Rightarrow> response \<Rightarrow> world \<Rightarrow> world" where
  "cache_put_effect name req resp w =
     w\<lparr>caches := caches_open_put (caches w) name req resp,
       trace := trace w @ [CachePut name req resp]\<rparr>"

text \<open>The \<open>activate\<close> listener (lines 164 to 178).\<close>

definition caches_delete_effect :: "jsstring \<Rightarrow> world \<Rightarrow> world" where
  "caches_delete_effect name w =
     w\<lparr>caches := caches_delete (caches w) name, trace := trace w @ [CacheDelete name]\<rparr>"

definition delete_old_cache :: "world \<Rightarrow> jsstring \<Rightarrow> world" where
  "delete_old_cache w cacheName =
     (if cacheName \<noteq> CACHE_NAME
      then caches_delete_effect cacheName
             (console_log [ascii ''Deleting old cache:'', cacheName] w)
      else w)"

definition clients_claim :: "world \<Rightarrow> world" where
  "clients_claim w = w\<lparr>trace := trace w @ [ClientsClaim]\<rparr>"

definition on_activate :: "world \<Rightarrow> world" where
  "on_activate w =
     (let w1 = console_log [ascii ''SW Activate''] w;
          cacheNames = caches_keys (caches w1);
          w2 = foldl delete_old_cache w1 cacheNames
      in clients_claim w2)"

text \<open>
  The \<open>fetch\<close> listener (lines 181 to 227). A listener that returns without calling
  \<open>respondWith\<close> leaves the request to the browser (\<open>PassThrough\<close>).
\<close>

datatype fetch_result = PassThrough | RespondWith response

definition offline_api_response :: "jsstring \<Rightarrow> response" where
  "offline_api_response now =
     new_Response
       (JSON_stringify
          [(ascii ''error'', ascii ''Offline''),
           (ascii ''message'', ascii ''No cached data available''),
           (ascii ''timestamp'', now)])
       \<lparr>init_status = Some 503, init_statusText = None,
        init_headers = [(ascii ''Content-Type'', ascii ''application/json'')]\<rparr>"

definition offline_page_response :: response where
  "offline_page_response =
     new_Response (ascii ''Offline - No cached version available'')
       \<lparr>init_status = Some 503, init_statusText = Some (ascii ''Service Unavailable''),
        init_headers = []\<rparr>"

definition on_fetch :: "world \<Rightarrow> request \<Rightarrow> fetch_outcome \<Rightarrow> jsstring \<Rightarrow> fetch_result \<times> world" where
  "on_fetch w req outcome now =
     (if request_method req \<noteq> ascii ''GET'' then (PassThrough, w)
      else
        (case outcome of
           Resolved resp \<Rightarrow>
             (if response_ok resp \<and> \<not> String_includes (url req) (ascii ''/sw.js'')
              then (RespondWith resp,
                    console_log [ascii ''Cached:'', url req]
                      (cache_put_effect CACHE_NAME req resp w))
              else (RespondWith resp, w))
         | Rejected \<Rightarrow>
             (case caches_match (caches w) req of
                Some cachedResponse \<Rightarrow>
                  (RespondWith cachedResponse,
                   console_log [ascii ''Serving from cache:'', url req] w)
              | None \<Rightarrow>
                  (if String_includes (url req) (ascii ''/api/'')
                   then (RespondWith (offline_api_response now), w)
                   else (RespondWith offline_page_response, w)))))"

subsection \<open>The path of a request URL\<close>

text \<open>
  The host that serves the script (example.js) tells its paths apart by
  \<open>new URL(request.url).pathname\<close>. For a serialised http(s) URL that is the text from
  the first slash after \<open>scheme://authority\<close> up to the query or the fragment.
\<close>

definition url_pathname :: "jsstring \<Rightarrow> jsstring" where
  "url_pathname u =
     (let rest = (case StringIndexOf u (ascii ''://'') of
                    None \<Rightarrow> u
                  | Some p \<Rightarrow> drop (p + 3) u)
      in takeWhile (\<lambda>c. c \<noteq> 0x3F \<and> c \<noteq> 0x23) (dropWhile (\<lambda>c. c \<noteq> 0x2F) rest))"

subsection \<open>Occurrences of a text in a document\<close>

definition occurrences :: "jsstring \<Rightarrow> jsstring \<Rightarrow> nat list" where
  "occurrences b s = filter (\<lambda>i. prefix b (drop i s)) [0..<Suc (length s)]"

section \<open>Facts about the string operations\<close>

text \<open>
  The embedding of ASCII text is injective, so a search in embedded text for embedded
  text is the search in the text itself.
\<close>

lemma unat_of_char16: "unat (of_char c :: 16 word) = of_char c"
proof -
  have "(of_char c :: 16 word) = of_nat (of_char c)"
    by (simp only: of_nat_of_char)
  then have "unat (of_char c :: 16 word) = unat (of_nat (of_char c) :: 16 word)"
    by (rule arg_cong)
  also have "\<dots> = (of_char c :: nat) mod 2 ^ 16"
    by (simp only: unat_of_nat len_of_numeral_defs) simp
  also have "\<dots> = of_char c"
  proof (rule mod_less)
    have "(of_char c :: nat) < 256" by (rule nat_of_char_less_256)
    from less_trans [OF this, of "2 ^ 16"] show "(of_char c :: nat) < 2 ^ 16" by simp
  qed
  finally show ?thesis .
qed

lemma of_char16_eq_iff: "(of_char c :: 16 word) = of_char d \<longleftrightarrow> c = d"
proof
  assume "(of_char c :: 16 word) = of_char d"
  then have "unat (of_char c :: 16 word) = unat (of_char d :: 16 word)" by simp
  then have "(of_char c :: nat) = of_char d" by (simp only: unat_of_char16)
  then show "c = d" by simp
qed simp

lemma inj_of_char16: "inj (of_char :: char \<Rightarrow> 16 word)"
  by (rule injI) (simp add: of_char16_eq_iff)

lemma prefix_map_inj: "inj f \<Longrightarrow> prefix (map f m) (map f s) \<longleftrightarrow> prefix m s"
proof (induction m arbitrary: s)
  case Nil
  then show ?case by simp
next
  case (Cons a m)
  then show ?case by (cases s) (auto dest: injD)
qed

lemma prefix_ascii: "prefix (ascii m) (ascii s) \<longleftrightarrow> prefix m s"
  unfolding ascii_def by (rule prefix_map_inj [OF inj_of_char16])

lemma StringIndexOf_ascii: "StringIndexOf (ascii s) (ascii m) = StringIndexOf s m"
proof (induction s)
  case Nil
  then show ?case by (simp add: ascii_def)
next
  case (Cons c s)
  have "prefix (ascii m) (ascii (c # s)) \<longleftrightarrow> prefix m (c # s)" by (rule prefix_ascii)
  then show ?case using Cons by (simp add: ascii_def)
qed

lemma in_set_ascii: "of_char c \<in> set (ascii s) \<longleftrightarrow> c \<in> set s"
  unfolding ascii_def by (auto simp: of_char16_eq_iff)

text \<open>
  A code unit that does not occur in the text searched for separates the search: no
  occurrence extends across it.
\<close>

lemma prefix_sep: "x \<notin> set m \<Longrightarrow> prefix m (u @ x # v) \<longleftrightarrow> prefix m u"
proof
  assume x: "x \<notin> set m" and p: "prefix m (u @ x # v)"
  then obtain z where z: "u @ x # v = m @ z" by (auto simp: prefix_def)
  show "prefix m u"
  proof (cases "length m \<le> length u")
    case True
    with z show ?thesis
      by (metis append_eq_append_conv_if prefix_def append_take_drop_id take_is_prefix)
  next
    case False
    then have "length u < length m" by simp
    with z have "m ! length u = x"
      by (metis nth_append nth_append_length)
    with \<open>length u < length m\<close> x show ?thesis by (metis nth_mem)
  qed
next
  assume "prefix m u"
  then show "prefix m (u @ x # v)" by (rule prefix_prefix)
qed

lemma StringIndexOf_sep:
  assumes "m \<noteq> []" and "x \<notin> set m"
  shows "StringIndexOf (u @ x # v) m =
    (case StringIndexOf u m of
       Some p \<Rightarrow> Some p
     | None \<Rightarrow> map_option (\<lambda>i. Suc (length u + i)) (StringIndexOf v m))"
proof (induction u)
  case Nil
  from assms have "\<not> prefix m (x # v)"
    by (cases m) auto
  with assms show ?case by (simp add: option.map_comp comp_def)
next
  case (Cons c u)
  have "prefix m ((c # u) @ x # v) \<longleftrightarrow> prefix m (c # u)"
    using assms(2) by (rule prefix_sep)
  with Cons show ?case
    by (auto simp: option.map_comp comp_def split: option.splits)
qed

lemma dollar_in_ascii: "0x24 \<in> set (ascii s) \<longleftrightarrow> CHR ''$'' \<in> set s"
proof -
  have "(0x24 :: 16 word) = of_char CHR ''$''" by simp
  then show ?thesis by (simp only: in_set_ascii)
qed

lemma body_close_units: "body_close \<noteq> []" "0x0A \<notin> set body_close" "0x20 \<notin> set body_close"
  "0xD83D \<notin> set body_close" "0xDCF1 \<notin> set body_close"
  by (simp_all add: body_close_def ascii_def)

lemma StringIndexOf_emoji:
  "StringIndexOf (ascii a @ [0xD83D, 0xDCF1] @ ascii b) body_close = None \<longleftrightarrow>
     StringIndexOf a ''</body>'' = None \<and> StringIndexOf b ''</body>'' = None"
proof -
  have 1: "StringIndexOf (ascii a @ 0xD83D # 0xDCF1 # ascii b) body_close =
    (case StringIndexOf (ascii a) body_close of Some p \<Rightarrow> Some p
     | None \<Rightarrow> map_option (\<lambda>i. Suc (length (ascii a) + i))
         (StringIndexOf (0xDCF1 # ascii b) body_close))"
    by (rule StringIndexOf_sep) (rule body_close_units)+
  have 2: "StringIndexOf ([] @ 0xDCF1 # ascii b) body_close =
    (case StringIndexOf [] body_close of Some p \<Rightarrow> Some p
     | None \<Rightarrow> map_option (\<lambda>i. Suc (length ([] :: jsstring) + i))
         (StringIndexOf (ascii b) body_close))"
    by (rule StringIndexOf_sep) (rule body_close_units)+
  have 3: "StringIndexOf (ascii s) body_close = StringIndexOf s ''</body>''" for s
    unfolding body_close_def by (rule StringIndexOf_ascii)
  show ?thesis using 1 2 by (auto simp: 3 body_close_units split: option.splits)
qed

lemma StringIndexOf_ascii_body: "StringIndexOf (ascii s) body_close = StringIndexOf s ''</body>''"
  unfolding body_close_def by (rule StringIndexOf_ascii)

lemma dollar_emoji: "0x24 \<in> set (ascii a @ [0xD83D, 0xDCF1] @ ascii b) \<longleftrightarrow>
    CHR ''$'' \<in> set a \<or> CHR ''$'' \<in> set b"
  by (auto simp: dollar_in_ascii)


text \<open>
  \<open>StringIndexOf\<close> finds the first position at which the text occurs, and fails only
  if there is none.
\<close>

lemma StringIndexOf_Some_iff:
  "StringIndexOf s m = Some p \<longleftrightarrow>
     p \<le> length s \<and> prefix m (drop p s) \<and> (\<forall>q<p. \<not> prefix m (drop q s))"
proof (induction s arbitrary: p)
  case Nil
  then show ?case by auto
next
  case (Cons c s)
  show ?case
  proof (cases "prefix m (c # s)")
    case True
    then show ?thesis by (cases p) auto
  next
    case False
    show ?thesis
    proof (cases p)
      case 0
      with False show ?thesis by simp
    next
      case (Suc k)
      have "(\<forall>q<Suc k. \<not> prefix m (drop q (c # s))) \<longleftrightarrow> (\<forall>q<k. \<not> prefix m (drop q s))"
        using False by (auto simp: less_Suc_eq_0_disj)
      with False Suc Cons [of k] show ?thesis by auto
    qed
  qed
qed

lemma StringIndexOf_None_iff:
  "StringIndexOf s m = None \<longleftrightarrow> (\<forall>q\<le>length s. \<not> prefix m (drop q s))"
proof (induction s)
  case Nil
  then show ?case by auto
next
  case (Cons c s)
  have "(\<forall>q\<le>Suc (length s). \<not> prefix m (drop q (c # s))) \<longleftrightarrow>
        \<not> prefix m (c # s) \<and> (\<forall>q\<le>length s. \<not> prefix m (drop q s))"
  proof
    assume a: "\<forall>q\<le>Suc (length s). \<not> prefix m (drop q (c # s))"
    from a [rule_format, of 0] have "\<not> prefix m (c # s)" by simp
    moreover have "\<not> prefix m (drop q s)" if "q \<le> length s" for q
      using a [rule_format, of "Suc q"] that by simp
    ultimately show "\<not> prefix m (c # s) \<and> (\<forall>q\<le>length s. \<not> prefix m (drop q s))"
      by blast
  next
    assume b: "\<not> prefix m (c # s) \<and> (\<forall>q\<le>length s. \<not> prefix m (drop q s))"
    show "\<forall>q\<le>Suc (length s). \<not> prefix m (drop q (c # s))"
    proof (intro allI impI)
      fix q
      assume "q \<le> Suc (length s)"
      then show "\<not> prefix m (drop q (c # s))"
        using b by (cases q) auto
    qed
  qed
  with Cons show ?case by auto
qed

lemma StringIndexOf_occurrence:
  "StringIndexOf (a @ m @ c) m = Some p \<Longrightarrow> p \<le> length a"
proof -
  assume h: "StringIndexOf (a @ m @ c) m = Some p"
  have "prefix m (drop (length a) (a @ m @ c))" by simp
  with h show ?thesis
    unfolding StringIndexOf_Some_iff by (meson not_le_imp_less)
qed

lemma StringIndexOf_split:
  assumes "StringIndexOf s m = Some p"
  shows "s = take p s @ m @ drop (p + length m) s"
proof -
  from assms have "prefix m (drop p s)" by (simp add: StringIndexOf_Some_iff)
  then obtain z where z: "drop p s = m @ z" by (auto simp: prefix_def)
  then have "drop (p + length m) s = z"
    by (metis add.commute append_eq_conv_conj drop_drop)
  with z show ?thesis by (metis append_take_drop_id)
qed

text \<open>A replacement template without a dollar sign stands for itself.\<close>

lemma GetSubstitution_literal:
  "0x24 \<notin> set r \<Longrightarrow> GetSubstitution ma pre fol r = r"
  by (induction ma pre fol r rule: GetSubstitution.induct) auto

lemma String_replace_first:
  assumes "StringIndexOf s m = Some p" and "0x24 \<notin> set r"
  shows "String_replace s m r = take p s @ r @ drop (p + length m) s"
  using assms by (simp add: String_replace_def GetSubstitution_literal)

section \<open>Facts about the augmentation block\<close>

text \<open>
  The marker holds no line feed, so it occurs in a text only if it occurs in one of its
  lines. No line of the block holds the marker or a dollar sign; the block begins with a
  line feed and ends with a space.
\<close>

lemma StringIndexOf_js_lines:
  assumes "m \<noteq> []" and "0x0A \<notin> set m" and "\<forall>l \<in> set ls. StringIndexOf l m = None"
  shows "StringIndexOf (js_lines ls) m = None"
  using assms(3)
proof (induction ls rule: js_lines.induct)
  case 1
  from assms(1) show ?case by simp
next
  case (2 l)
  then show ?case by simp
next
  case (3 l k ls)
  then have "StringIndexOf l m = None" and "StringIndexOf (js_lines (k # ls)) m = None"
    by simp_all
  then show ?case
    by (simp add: StringIndexOf_sep [OF assms(1,2)])
qed

lemma set_js_lines: "x \<in> set (js_lines ls) \<Longrightarrow> x = 0x0A \<or> (\<exists>l \<in> set ls. x \<in> set l)"
  by (induction ls rule: js_lines.induct) auto

lemma hd_js_lines: "hd (js_lines ([] # k # ls)) = 0x0A"
  by simp

lemma js_lines_Nil_iff: "js_lines ls = [] \<longleftrightarrow> ls = [] \<or> ls = [[]]"
  by (induction ls rule: js_lines.induct) auto

lemma last_js_lines: "ls \<noteq> [] \<Longrightarrow> last ls \<noteq> [] \<Longrightarrow> last (js_lines ls) = last (last ls)"
  by (induction ls rule: js_lines.induct) (auto simp: js_lines_Nil_iff)

lemma js_lines_nonempty: "js_lines (l # k # ls) \<noteq> []"
  by simp

lemma offlineScripts_lines_ok:
  "\<forall>l \<in> set offlineScripts_lines. StringIndexOf l body_close = None \<and> 0x24 \<notin> set l"
  unfolding offlineScripts_lines_def
  by (simp only: list.set ball_simps StringIndexOf_ascii_body StringIndexOf_emoji
      dollar_in_ascii dollar_emoji StringIndexOf.simps Cons_prefix_Cons char.inject simp_thms
      if_False if_True option.map list.simps prefix_bot.bot_least prefix_Nil
      set_simps insert_iff empty_iff de_Morgan_disj)

lemma offlineScripts_no_marker: "StringIndexOf offlineScripts body_close = None"
  unfolding offlineScripts_def
  using body_close_units(1,2) offlineScripts_lines_ok
  by (intro StringIndexOf_js_lines) auto

lemma offlineScripts_no_dollar: "0x24 \<notin> set offlineScripts"
  unfolding offlineScripts_def
  using offlineScripts_lines_ok set_js_lines [of "0x24" offlineScripts_lines]
  by auto

lemma offlineScripts_hd: "hd offlineScripts = 0x0A"
  unfolding offlineScripts_def offlineScripts_lines_def
  by (simp only: ascii_def list.map hd_js_lines)

lemma offlineScripts_nonempty: "offlineScripts \<noteq> []"
  unfolding offlineScripts_def offlineScripts_lines_def
  by (rule js_lines_nonempty)

lemma offlineScripts_last: "last offlineScripts = 0x20"
proof -
  have "last offlineScripts_lines = ascii ''  ''"
    unfolding offlineScripts_lines_def
    by (simp only: last.simps list.distinct if_False if_True simp_thms)
  moreover have "offlineScripts_lines \<noteq> []"
    unfolding offlineScripts_lines_def by (rule list.distinct)
  ultimately show ?thesis
    unfolding offlineScripts_def
    by (simp add: last_js_lines ascii_def)
qed

text \<open>
  Inserting a block before the first occurrence of the marker moves that occurrence by
  the length of the block and adds none before it, provided the block holds no marker
  and neither begins nor ends with a code unit of the marker.
\<close>

lemma StringIndexOf_insert:
  assumes m: "m \<noteq> []" and b: "b \<noteq> []" and hd: "hd b \<notin> set m" and last: "last b \<notin> set m"
    and none: "StringIndexOf b m = None"
    and first: "StringIndexOf (pre @ m @ post) m = Some (length pre)"
  shows "StringIndexOf (pre @ b @ m @ post) m = Some (length pre + length b)"
proof -
  have early: "\<not> prefix m (drop q (pre @ m @ post))" if "q < length pre" for q
    using first that by (simp add: StringIndexOf_Some_iff)
  have inner: "\<not> prefix m (drop k b)" if "k \<le> length b" for k
    using none that by (simp add: StringIndexOf_None_iff)
  obtain x b' where bx: "b = x # b'" using b by (cases b) auto
  obtain b'' y where bs: "b = b'' @ [y]" using b by (cases b rule: rev_cases) auto
  have x: "x \<notin> set m" using hd bx by simp
  have y: "y \<notin> set m" using last bs by simp
  have "\<not> prefix m (drop q (pre @ b @ m @ post))" if q: "q < length pre + length b" for q
  proof (cases "q < length pre")
    case True
    have "prefix m (drop q pre @ x # (b' @ m @ post)) \<longleftrightarrow> prefix m (drop q pre)"
      using x by (rule prefix_sep)
    moreover have "\<not> prefix m (drop q pre)"
      using early [OF True] True by (auto dest: prefix_prefix)
    ultimately show ?thesis using True bx by simp
  next
    case False
    define k where "k = q - length pre"
    have k: "k < length b" using q False by (simp add: k_def)
    then have "drop k b \<noteq> []" by simp
    then obtain t where t: "drop k b = t @ [y]"
      using bs k by (metis drop_append drop_eq_Nil2 append_butlast_last_id last_drop last_snoc not_le)
    have "prefix m (t @ y # (m @ post)) \<longleftrightarrow> prefix m t"
      using y by (rule prefix_sep)
    moreover have "\<not> prefix m t"
      using inner [of k] k t by (auto dest: prefix_prefix)
    moreover have "drop q (pre @ b @ m @ post) = t @ y # (m @ post)"
      using False k t by (simp add: k_def)
    ultimately show ?thesis by simp
  qed
  then show ?thesis by (simp add: StringIndexOf_Some_iff)
qed

lemma StringIndexOf_append:
  assumes m: "m \<noteq> []" and b: "b \<noteq> []" and hd: "hd b \<notin> set m"
    and none: "StringIndexOf b m = None" and d: "StringIndexOf d m = None"
  shows "StringIndexOf (d @ b) m = None"
proof -
  obtain x b' where bx: "b = x # b'" using b by (cases b) auto
  have x: "x \<notin> set m" using hd bx by simp
  have "StringIndexOf ([] @ x # b') m =
      (case StringIndexOf [] m of Some p \<Rightarrow> Some p
       | None \<Rightarrow> map_option (\<lambda>i. Suc (length ([] :: 'a list) + i)) (StringIndexOf b' m))"
    using m x by (rule StringIndexOf_sep)
  with none bx m have "StringIndexOf b' m = None" by simp
  with d show ?thesis
    unfolding bx by (simp add: StringIndexOf_sep [OF m x])
qed

lemma body_close_no_dollar: "0x24 \<notin> set body_close"
  by (simp add: body_close_def ascii_def)

lemma String_includes_iff: "String_includes s m \<longleftrightarrow> (\<exists>a c. s = a @ m @ c)"
proof
  assume "String_includes s m"
  then obtain p where "StringIndexOf s m = Some p"
    by (auto simp: String_includes_def)
  then have "s = take p s @ m @ drop (p + length m) s"
    by (rule StringIndexOf_split)
  then show "\<exists>a c. s = a @ m @ c" by blast
next
  assume "\<exists>a c. s = a @ m @ c"
  then obtain a c where s: "s = a @ m @ c" by blast
  have "prefix m (drop (length a) (a @ m @ c))" by simp
  moreover have "length a \<le> length (a @ m @ c)" by simp
  ultimately have "StringIndexOf (a @ m @ c) m \<noteq> None"
    unfolding StringIndexOf_None_iff by blast
  with s show "String_includes s m" by (simp add: String_includes_def)
qed

text \<open>The two results of \<open>makeOffline\<close>, and where the marker is afterwards.\<close>

lemma makeOffline_marker:
  assumes "StringIndexOf html body_close = Some p"
  shows "makeOffline html =
    take p html @ offlineScripts @ body_close @ drop (p + length body_close) html"
proof -
  have "0x24 \<notin> set (offlineScripts @ body_close)"
    using offlineScripts_no_dollar body_close_no_dollar by simp
  with assms have "String_replace html body_close (offlineScripts @ body_close) =
      take p html @ (offlineScripts @ body_close) @ drop (p + length body_close) html"
    by (rule String_replace_first)
  with assms show ?thesis by (simp add: makeOffline_def String_includes_def)
qed

lemma makeOffline_no_marker:
  "StringIndexOf html body_close = None \<Longrightarrow> makeOffline html = html @ offlineScripts"
  by (simp add: makeOffline_def String_includes_def)

lemma marker_after_block:
  assumes "StringIndexOf (pre @ body_close @ post) body_close = Some (length pre)"
  shows "StringIndexOf (pre @ offlineScripts @ body_close @ post) body_close =
    Some (length pre + length offlineScripts)"
  using body_close_units(1) offlineScripts_nonempty _ _ offlineScripts_no_marker assms
proof (rule StringIndexOf_insert)
  show "hd offlineScripts \<notin> set body_close"
    using body_close_units(2) by (simp add: offlineScripts_hd)
  show "last offlineScripts \<notin> set body_close"
    using body_close_units(3) by (simp add: offlineScripts_last)
qed

lemma no_marker_after_append:
  assumes "StringIndexOf html body_close = None"
  shows "StringIndexOf (html @ offlineScripts) body_close = None"
  using body_close_units(1) offlineScripts_nonempty _ offlineScripts_no_marker assms
proof (rule StringIndexOf_append)
  show "hd offlineScripts \<notin> set body_close"
    using body_close_units(2) by (simp add: offlineScripts_hd)
qed

lemma makeOffline_cases:
  obtains (marker) pre post where "html = pre @ body_close @ post"
      and "StringIndexOf html body_close = Some (length pre)"
      and "makeOffline html = pre @ offlineScripts @ body_close @ post"
      and "StringIndexOf (makeOffline html) body_close = Some (length pre + length offlineScripts)"
  | (no_marker) "StringIndexOf html body_close = None"
      and "makeOffline html = html @ offlineScripts"
      and "StringIndexOf (makeOffline html) body_close = None"
proof (cases "StringIndexOf html body_close")
  case None
  then show ?thesis
    using no_marker makeOffline_no_marker no_marker_after_append by simp
next
  case (Some p)
  define pre where "pre = take p html"
  define post where "post = drop (p + length body_close) html"
  have html: "html = pre @ body_close @ post"
    unfolding pre_def post_def using Some by (rule StringIndexOf_split)
  have p: "p \<le> length html" using Some by (simp add: StringIndexOf_Some_iff)
  then have len: "length pre = p" by (simp add: pre_def)
  have out: "makeOffline html = pre @ offlineScripts @ body_close @ post"
    unfolding pre_def post_def using Some by (rule makeOffline_marker)
  have "StringIndexOf (pre @ body_close @ post) body_close = Some (length pre)"
    using Some html len by simp
  then have "StringIndexOf (pre @ offlineScripts @ body_close @ post) body_close =
      Some (length pre + length offlineScripts)"
    by (rule marker_after_block)
  with html Some len out show ?thesis using marker by simp
qed

lemma two_occurrences:
  assumes "b \<noteq> []" and "s = a @ b @ b @ c"
  shows "2 \<le> length (occurrences b s)"
proof -
  let ?P = "\<lambda>i. prefix b (drop i s)"
  have 1: "length a \<in> set (occurrences b s)"
    using assms by (simp add: occurrences_def)
  have "drop (length a + length b) s = b @ c"
    using assms by simp
  then have 2: "length a + length b \<in> set (occurrences b s)"
    using assms by (simp add: occurrences_def)
  have "distinct (occurrences b s)" by (simp add: occurrences_def)
  then have "length (occurrences b s) = card (set (occurrences b s))"
    by (simp add: distinct_card)
  moreover have "card {length a, length a + length b} \<le> card (set (occurrences b s))"
    using 1 2 by (intro card_mono) auto
  moreover have "card {length a, length a + length b} = 2"
    using assms(1) by simp
  ultimately show ?thesis by simp
qed

lemma one_occurrence:
  assumes "s = a @ b @ c"
  shows "length a \<in> set (occurrences b s)"
  using assms by (simp add: occurrences_def)

section \<open>The injector: properties\<close>

lemma String_includes_ascii: "String_includes (ascii s) (ascii m) \<longleftrightarrow> StringIndexOf s m \<noteq> None"
  by (simp add: String_includes_def StringIndexOf_ascii)

text \<open>
  C7. A document without the closing body marker is returned with the augmentation block
  appended: the output is the input, unaltered, followed by the block.
\<close>

theorem makeOffline_appends_without_marker:
  assumes "\<not> String_includes html body_close"
  shows "makeOffline html = html @ offlineScripts"
  using assms by (simp add: makeOffline_def)

theorem makeOffline_appends_without_marker_witness:
  "\<not> String_includes (ascii ''<h1>Welcome!</h1>'') body_close \<and>
   makeOffline (ascii ''<h1>Welcome!</h1>'') = ascii ''<h1>Welcome!</h1>'' @ offlineScripts"
proof -
  have h: "\<not> String_includes (ascii ''<h1>Welcome!</h1>'') body_close"
    by (simp add: body_close_def String_includes_ascii)
  show ?thesis
    using h makeOffline_appends_without_marker [OF h] by simp
qed

text \<open>
  C6, as amended. A document that contains the closing body marker is returned with one
  copy of the augmentation block inserted immediately before the first occurrence of the
  marker: the output is the text before that occurrence, the block, the marker and the
  text after it, so every other code unit of the document is the input's. In the output
  the block is again followed by the first occurrence of the marker there, and the output
  holds an instance of the block at the place of insertion. (How many instances it holds
  in all depends on the input.)
\<close>

theorem makeOffline_inserts_before_first_marker:
  assumes "String_includes html body_close"
  shows "\<exists>pre post.
    html = pre @ body_close @ post \<and>
    (\<forall>a c. html = a @ body_close @ c \<longrightarrow> length pre \<le> length a) \<and>
    makeOffline html = pre @ offlineScripts @ body_close @ post \<and>
    StringIndexOf (makeOffline html) body_close = Some (length (pre @ offlineScripts)) \<and>
    length pre \<in> set (occurrences offlineScripts (makeOffline html))"
proof (cases html rule: makeOffline_cases)
  case (marker pre post)
  have "length pre \<le> length a" if "html = a @ body_close @ c" for a c
    using marker(2) that StringIndexOf_occurrence [of a body_close c "length pre"] by simp
  moreover have "length pre \<in> set (occurrences offlineScripts (makeOffline html))"
    using marker(3) by (rule one_occurrence)
  ultimately show ?thesis using marker by auto
next
  case no_marker
  with assms show ?thesis by (simp add: String_includes_def)
qed

theorem makeOffline_inserts_before_first_marker_witness:
  "String_includes (ascii ''<body><p>Hi</p></body></html>'') body_close \<and>
   (\<exists>pre post.
      ascii ''<body><p>Hi</p></body></html>'' = pre @ body_close @ post \<and>
      (\<forall>a c. ascii ''<body><p>Hi</p></body></html>'' = a @ body_close @ c \<longrightarrow>
         length pre \<le> length a) \<and>
      makeOffline (ascii ''<body><p>Hi</p></body></html>'') =
        pre @ offlineScripts @ body_close @ post \<and>
      StringIndexOf (makeOffline (ascii ''<body><p>Hi</p></body></html>'')) body_close =
        Some (length (pre @ offlineScripts)) \<and>
      length pre \<in> set (occurrences offlineScripts
        (makeOffline (ascii ''<body><p>Hi</p></body></html>''))))"
proof -
  have h: "String_includes (ascii ''<body><p>Hi</p></body></html>'') body_close"
    by (simp add: body_close_def String_includes_ascii)
  show ?thesis
    using h makeOffline_inserts_before_first_marker [OF h] by simp
qed

text \<open>
  C6 as stated fails: a document that already holds the text of the block, such as the
  block followed by the marker, comes back with two instances of the block, not one.
\<close>

theorem makeOffline_exactly_one_instance_counterexample:
  "String_includes (offlineScripts @ body_close) body_close \<and>
   makeOffline (offlineScripts @ body_close) = offlineScripts @ offlineScripts @ body_close \<and>
   length (occurrences offlineScripts (makeOffline (offlineScripts @ body_close))) \<noteq> 1"
proof -
  have inc: "String_includes (offlineScripts @ body_close) body_close"
    unfolding String_includes_iff by (intro exI [of _ offlineScripts] exI [of _ "[]"]) simp
  have "StringIndexOf ([] @ body_close @ []) body_close = Some (length ([] :: jsstring))"
    by (simp add: StringIndexOf_Some_iff)
  then have "StringIndexOf ([] @ offlineScripts @ body_close @ []) body_close =
      Some (length ([] :: jsstring) + length offlineScripts)"
    by (rule marker_after_block)
  then have "StringIndexOf (offlineScripts @ body_close) body_close = Some (length offlineScripts)"
    by simp
  then have out: "makeOffline (offlineScripts @ body_close) =
      offlineScripts @ offlineScripts @ body_close"
    by (simp add: makeOffline_marker)
  have "offlineScripts @ offlineScripts @ body_close =
      [] @ offlineScripts @ offlineScripts @ body_close"
    by simp
  with offlineScripts_nonempty
  have "2 \<le> length (occurrences offlineScripts (offlineScripts @ offlineScripts @ body_close))"
    by (rule two_occurrences)
  with inc out show ?thesis by simp
qed

text \<open>
  C10. The injector is not idempotent. Whatever the document, the second application
  inserts a second copy of the block right beside the first, so the result holds two
  instances of the block and differs from the result of one application.
\<close>

theorem makeOffline_not_idempotent:
  "(\<exists>a c. makeOffline html = a @ offlineScripts @ c \<and>
      makeOffline (makeOffline html) = a @ offlineScripts @ offlineScripts @ c) \<and>
   2 \<le> length (occurrences offlineScripts (makeOffline (makeOffline html))) \<and>
   makeOffline (makeOffline html) \<noteq> makeOffline html"
proof -
  have split: "\<exists>a c. makeOffline html = a @ offlineScripts @ c \<and>
      makeOffline (makeOffline html) = a @ offlineScripts @ offlineScripts @ c"
  proof (cases html rule: makeOffline_cases)
    case (marker pre post)
    have "makeOffline (makeOffline html) =
        take (length pre + length offlineScripts) (makeOffline html) @ offlineScripts @
        body_close @
        drop (length pre + length offlineScripts + length body_close) (makeOffline html)"
      using marker(4) by (rule makeOffline_marker)
    with marker(3) have "makeOffline (makeOffline html) =
        pre @ offlineScripts @ offlineScripts @ body_close @ post"
      by simp
    with marker(3) show ?thesis by blast
  next
    case no_marker
    from no_marker(3) have "makeOffline (makeOffline html) = makeOffline html @ offlineScripts"
      by (rule makeOffline_no_marker)
    with no_marker(2) have "makeOffline html = html @ offlineScripts @ [] \<and>
        makeOffline (makeOffline html) = html @ offlineScripts @ offlineScripts @ []"
      by simp
    then show ?thesis by blast
  qed
  then obtain a c where 1: "makeOffline html = a @ offlineScripts @ c"
    and 2: "makeOffline (makeOffline html) = a @ offlineScripts @ offlineScripts @ c"
    by blast
  have "2 \<le> length (occurrences offlineScripts (makeOffline (makeOffline html)))"
    using offlineScripts_nonempty 2 by (rule two_occurrences)
  moreover have "length (makeOffline (makeOffline html)) \<noteq> length (makeOffline html)"
    using 1 2 offlineScripts_nonempty by simp
  ultimately show ?thesis using split by auto
qed

section \<open>The service worker: properties\<close>

text \<open>\<open>caches.match\<close> answers with the entry of the first cache that has one.\<close>

lemma caches_match_None_iff:
  "caches_match cs req = None \<longleftrightarrow> (\<forall>e \<in> set cs. cache_match (snd e) req = None)"
  by (induction cs) (auto split: option.splits)

lemma caches_match_first:
  "caches_match cs req = Some r \<longleftrightarrow>
     (\<exists>earlier e later. cs = earlier @ e # later \<and>
        (\<forall>e' \<in> set earlier. cache_match (snd e') req = None) \<and>
        cache_match (snd e) req = Some r)"
proof (induction cs)
  case Nil
  then show ?case by simp
next
  case (Cons x cs)
  show ?case
  proof (cases "cache_match (snd x) req")
    case None
    have "(\<exists>earlier e later. x # cs = earlier @ e # later \<and>
        (\<forall>e' \<in> set earlier. cache_match (snd e') req = None) \<and>
        cache_match (snd e) req = Some r) \<longleftrightarrow>
      (\<exists>earlier e later. cs = earlier @ e # later \<and>
        (\<forall>e' \<in> set earlier. cache_match (snd e') req = None) \<and>
        cache_match (snd e) req = Some r)"
    proof
      assume "\<exists>earlier e later. x # cs = earlier @ e # later \<and>
        (\<forall>e' \<in> set earlier. cache_match (snd e') req = None) \<and>
        cache_match (snd e) req = Some r"
      then obtain earlier e later where h: "x # cs = earlier @ e # later"
        "\<forall>e' \<in> set earlier. cache_match (snd e') req = None"
        "cache_match (snd e) req = Some r" by blast
      with None obtain earlier' where "earlier = x # earlier'"
        by (cases earlier) auto
      with h have "cs = earlier' @ e # later \<and>
        (\<forall>e' \<in> set earlier'. cache_match (snd e') req = None) \<and>
        cache_match (snd e) req = Some r" by simp
      then show "\<exists>earlier e later. cs = earlier @ e # later \<and>
        (\<forall>e' \<in> set earlier. cache_match (snd e') req = None) \<and>
        cache_match (snd e) req = Some r" by blast
    next
      assume "\<exists>earlier e later. cs = earlier @ e # later \<and>
        (\<forall>e' \<in> set earlier. cache_match (snd e') req = None) \<and>
        cache_match (snd e) req = Some r"
      then obtain earlier e later where h: "cs = earlier @ e # later"
        "\<forall>e' \<in> set earlier. cache_match (snd e') req = None"
        "cache_match (snd e) req = Some r" by blast
      with None have "x # cs = (x # earlier) @ e # later \<and>
        (\<forall>e' \<in> set (x # earlier). cache_match (snd e') req = None) \<and>
        cache_match (snd e) req = Some r" by simp
      then show "\<exists>earlier e later. x # cs = earlier @ e # later \<and>
        (\<forall>e' \<in> set earlier. cache_match (snd e') req = None) \<and>
        cache_match (snd e) req = Some r" by blast
    qed
    with None Cons show ?thesis by simp
  next
    case (Some r')
    have "(\<exists>earlier e later. x # cs = earlier @ e # later \<and>
        (\<forall>e' \<in> set earlier. cache_match (snd e') req = None) \<and>
        cache_match (snd e) req = Some r) \<longleftrightarrow> r' = r"
    proof
      assume "\<exists>earlier e later. x # cs = earlier @ e # later \<and>
        (\<forall>e' \<in> set earlier. cache_match (snd e') req = None) \<and>
        cache_match (snd e) req = Some r"
      then obtain earlier e later where h: "x # cs = earlier @ e # later"
        "\<forall>e' \<in> set earlier. cache_match (snd e') req = None"
        "cache_match (snd e) req = Some r" by blast
      with Some show "r' = r" by (cases earlier) auto
    next
      assume "r' = r"
      with Some have "x # cs = [] @ x # cs \<and>
        (\<forall>e' \<in> set []. cache_match (snd e') req = None) \<and>
        cache_match (snd x) req = Some r" by simp
      then show "\<exists>earlier e later. x # cs = earlier @ e # later \<and>
        (\<forall>e' \<in> set earlier. cache_match (snd e') req = None) \<and>
        cache_match (snd e) req = Some r" by blast
    qed
    with Some show ?thesis by simp
  qed
qed

text \<open>The loop of the \<open>activate\<close> listener over the names of the caches.\<close>

lemma caches_foldl_delete_old_cache:
  "caches (foldl delete_old_cache w ns) =
     filter (\<lambda>e. fst e \<notin> set ns \<or> fst e = CACHE_NAME) (caches w)"
proof (induction ns arbitrary: w)
  case Nil
  then show ?case by simp
next
  case (Cons n ns)
  have "caches (delete_old_cache w n) = filter (\<lambda>e. fst e \<noteq> n \<or> fst e = CACHE_NAME) (caches w)"
    by (auto simp: delete_old_cache_def caches_delete_effect_def caches_delete_def console_log_def
        intro: filter_cong)
  then show ?case
    by (auto simp: Cons intro: filter_cong)
qed

lemma deleted_caches_append: "deleted_caches (es @ fs) = deleted_caches es @ deleted_caches fs"
  by (induction es rule: deleted_caches.induct) auto

lemma trace_foldl_delete_old_cache:
  "\<exists>es. trace (foldl delete_old_cache w ns) = trace w @ es \<and> ClientsClaim \<notin> set es \<and>
     deleted_caches es = filter (\<lambda>n. n \<noteq> CACHE_NAME) ns"
proof (induction ns arbitrary: w)
  case Nil
  then show ?case by simp
next
  case (Cons n ns)
  obtain es where es: "trace (foldl delete_old_cache (delete_old_cache w n) ns) =
      trace (delete_old_cache w n) @ es" "ClientsClaim \<notin> set es"
      "deleted_caches es = filter (\<lambda>n. n \<noteq> CACHE_NAME) ns"
    using Cons [of "delete_old_cache w n"] by blast
  show ?case
  proof (cases "n = CACHE_NAME")
    case True
    then have "delete_old_cache w n = w" by (simp add: delete_old_cache_def)
    with es True have "trace (foldl delete_old_cache w (n # ns)) = trace w @ es \<and>
        ClientsClaim \<notin> set es \<and>
        deleted_caches es = filter (\<lambda>n. n \<noteq> CACHE_NAME) (n # ns)"
      by simp
    then show ?thesis by blast
  next
    case False
    let ?fs = "[ConsoleLog [ascii ''Deleting old cache:'', n], CacheDelete n]"
    have "trace (delete_old_cache w n) = trace w @ ?fs"
      using False by (simp add: delete_old_cache_def caches_delete_effect_def console_log_def)
    with es False have "trace (foldl delete_old_cache w (n # ns)) = trace w @ (?fs @ es) \<and>
        ClientsClaim \<notin> set (?fs @ es) \<and>
        deleted_caches (?fs @ es) = filter (\<lambda>n. n \<noteq> CACHE_NAME) (n # ns)"
      by simp
    then show ?thesis by blast
  qed
qed

text \<open>A cache answers with the response of the first entry that the request matches.\<close>

lemma cache_match_Some_iff:
  assumes "request_method req = ascii ''GET''"
  shows "cache_match c req = Some r \<longleftrightarrow>
    (\<exists>before q after. c = before @ (q, r) # after \<and>
       request_matches_cached_item req q r \<and>
       (\<forall>e \<in> set before. \<not> request_matches_cached_item req (fst e) (snd e)))"
proof (induction c)
  case Nil
  with assms show ?case by (simp add: cache_match_def)
next
  case (Cons x c)
  show ?case
  proof (cases "request_matches_cached_item req (fst x) (snd x)")
    case True
    have "(\<exists>before q after. x # c = before @ (q, r) # after \<and>
       request_matches_cached_item req q r \<and>
       (\<forall>e \<in> set before. \<not> request_matches_cached_item req (fst e) (snd e))) \<longleftrightarrow>
       snd x = r"
    proof
      assume "\<exists>before q after. x # c = before @ (q, r) # after \<and>
        request_matches_cached_item req q r \<and>
        (\<forall>e \<in> set before. \<not> request_matches_cached_item req (fst e) (snd e))"
      then obtain before q after where h: "x # c = before @ (q, r) # after"
        "\<forall>e \<in> set before. \<not> request_matches_cached_item req (fst e) (snd e)" by blast
      with True show "snd x = r" by (cases before) auto
    next
      assume "snd x = r"
      with True have "x # c = [] @ (fst x, r) # c \<and>
        request_matches_cached_item req (fst x) r \<and>
        (\<forall>e \<in> set []. \<not> request_matches_cached_item req (fst e) (snd e))"
        by auto
      then show "\<exists>before q after. x # c = before @ (q, r) # after \<and>
        request_matches_cached_item req q r \<and>
        (\<forall>e \<in> set before. \<not> request_matches_cached_item req (fst e) (snd e))"
        by blast
    qed
    with True assms show ?thesis by (simp add: cache_match_def)
  next
    case False
    have "(\<exists>before q after. x # c = before @ (q, r) # after \<and>
       request_matches_cached_item req q r \<and>
       (\<forall>e \<in> set before. \<not> request_matches_cached_item req (fst e) (snd e))) \<longleftrightarrow>
      (\<exists>before q after. c = before @ (q, r) # after \<and>
       request_matches_cached_item req q r \<and>
       (\<forall>e \<in> set before. \<not> request_matches_cached_item req (fst e) (snd e)))"
    proof
      assume "\<exists>before q after. x # c = before @ (q, r) # after \<and>
        request_matches_cached_item req q r \<and>
        (\<forall>e \<in> set before. \<not> request_matches_cached_item req (fst e) (snd e))"
      then obtain before q after where h: "x # c = before @ (q, r) # after"
        "request_matches_cached_item req q r"
        "\<forall>e \<in> set before. \<not> request_matches_cached_item req (fst e) (snd e)" by blast
      with False obtain before' where "before = x # before'"
        by (cases before) auto
      with h have "c = before' @ (q, r) # after \<and>
        request_matches_cached_item req q r \<and>
        (\<forall>e \<in> set before'. \<not> request_matches_cached_item req (fst e) (snd e))" by simp
      then show "\<exists>before q after. c = before @ (q, r) # after \<and>
        request_matches_cached_item req q r \<and>
        (\<forall>e \<in> set before. \<not> request_matches_cached_item req (fst e) (snd e))" by blast
    next
      assume "\<exists>before q after. c = before @ (q, r) # after \<and>
        request_matches_cached_item req q r \<and>
        (\<forall>e \<in> set before. \<not> request_matches_cached_item req (fst e) (snd e))"
      then obtain before q after where h: "c = before @ (q, r) # after"
        "request_matches_cached_item req q r"
        "\<forall>e \<in> set before. \<not> request_matches_cached_item req (fst e) (snd e)" by blast
      with False have "x # c = (x # before) @ (q, r) # after \<and>
        request_matches_cached_item req q r \<and>
        (\<forall>e \<in> set (x # before). \<not> request_matches_cached_item req (fst e) (snd e))" by simp
      then show "\<exists>before q after. x # c = before @ (q, r) # after \<and>
        request_matches_cached_item req q r \<and>
        (\<forall>e \<in> set before. \<not> request_matches_cached_item req (fst e) (snd e))" by blast
    qed
    with False assms Cons show ?thesis by (simp add: cache_match_def)
  qed
qed

lemma cache_match_None_iff:
  assumes "request_method req = ascii ''GET''"
  shows "cache_match c req = None \<longleftrightarrow>
    (\<forall>e \<in> set c. \<not> request_matches_cached_item req (fst e) (snd e))"
  using assms by (auto simp: cache_match_def find_None_iff)

lemma ascii_eq_iff: "ascii s = ascii t \<longleftrightarrow> s = t"
  unfolding ascii_def using inj_of_char16 by (simp add: inj_map_eq_map)

text \<open>
  C5. A request whose method is not GET is left to the browser: the listener returns
  without answering, and neither the caches nor anything else in the world changes,
  whatever the outcome of a fetch would be.
\<close>

theorem on_fetch_other_methods_pass_through:
  assumes "request_method req \<noteq> ascii ''GET''"
  shows "on_fetch w req outcome now = (PassThrough, w)"
  using assms by (simp add: on_fetch_def)

theorem on_fetch_other_methods_pass_through_witness:
  "request_method \<lparr>request_method = ascii ''POST'', url = ascii ''https://example.com/api/items'',
       request_headers = []\<rparr>
     \<noteq> ascii ''GET'' \<and>
   on_fetch \<lparr>caches = [], trace = []\<rparr>
     \<lparr>request_method = ascii ''POST'', url = ascii ''https://example.com/api/items'',
       request_headers = []\<rparr>
     (Resolved \<lparr>status = 200, statusText = ascii ''OK'', headers = [], body = ascii ''{}''\<rparr>)
     (ascii ''2026-01-01T00:00:00.000Z'') =
   (PassThrough, \<lparr>caches = [], trace = []\<rparr>)"
proof -
  have h: "request_method
      \<lparr>request_method = ascii ''POST'', url = ascii ''https://example.com/api/items'',
       request_headers = []\<rparr>
     \<noteq> ascii ''GET''"
    by (simp add: ascii_eq_iff)
  show ?thesis
    using h on_fetch_other_methods_pass_through [OF h] by simp
qed

text \<open>Evaluations for the examples: header values, field values of \<open>Vary\<close>, URLs.\<close>

lemma header_examples:
  "vary_field_values [(ascii ''Vary'', ascii ''Accept'')] = [ascii ''Accept'']"
  "vary_field_values [] = []"
  "header_list_get [(ascii ''Accept'', ascii ''text/html'')] (ascii ''Accept'') =
     Some (ascii ''text/html'')"
  "header_list_get [(ascii ''Accept'', ascii ''application/json'')] (ascii ''Accept'') =
     Some (ascii ''application/json'')"
  by (simp_all add: vary_field_values_def header_list_get_def strip_http_space_def
      ascii_lowercase_def ascii_def)

lemma url_examples:
  "takeWhile (\<lambda>u. u \<noteq> 0x23) (ascii ''https://example.com/page#a'') =
     ascii ''https://example.com/page''"
  "takeWhile (\<lambda>u. u \<noteq> 0x23) (ascii ''https://example.com/page#b'') =
     ascii ''https://example.com/page''"
  "takeWhile (\<lambda>u. u \<noteq> 0x23) (ascii ''https://example.com/data'') =
     ascii ''https://example.com/data''"
  "takeWhile (\<lambda>u. u \<noteq> 0x23) (ascii ''https://example.com/other'') =
     ascii ''https://example.com/other''"
  "url_scheme (ascii ''https://example.com/data'') = ascii ''https''"
  by (simp_all add: url_scheme_def ascii_def)

text \<open>
  C3, as amended. When the fetch of a GET request fails and some cache holds an entry
  that was stored under a GET request with the same URL, the fragment apart, and with the
  same values for the headers that the \<open>Vary\<close> header of the stored response names
  (none of them \<open>*\<close>), the listener answers with a stored response as it was stored:
  that of the first such entry of the first cache, in the order of creation, that has
  one. It does not make up an offline response, and it leaves the caches as they are.
\<close>

theorem on_fetch_offline_serves_stored:
  assumes "request_method req = ascii ''GET''"
    and "(name, c) \<in> set (caches w)" and "(q, r) \<in> set c"
    and "request_method q = ascii ''GET''"
    and "takeWhile (\<lambda>u. u \<noteq> 0x23) (url q) = takeWhile (\<lambda>u. u \<noteq> 0x23) (url req)"
    and "list_all
      (\<lambda>f. f \<noteq> [0x2A] \<and>
         header_list_get (request_headers q) f = header_list_get (request_headers req) f)
      (vary_field_values (headers r))"
  shows "\<exists>earlier hit later before q' r' after.
    caches w = earlier @ hit # later \<and> snd hit = before @ (q', r') # after \<and>
    (\<forall>e \<in> set (concat (map snd earlier) @ before).
       \<not> request_matches_cached_item req (fst e) (snd e)) \<and>
    request_method q' = ascii ''GET'' \<and>
    takeWhile (\<lambda>u. u \<noteq> 0x23) (url q') = takeWhile (\<lambda>u. u \<noteq> 0x23) (url req) \<and>
    list_all
      (\<lambda>f. f \<noteq> [0x2A] \<and>
         header_list_get (request_headers q') f = header_list_get (request_headers req) f)
      (vary_field_values (headers r')) \<and>
    on_fetch w req Rejected now =
      (RespondWith r', console_log [ascii ''Serving from cache:'', url req] w) \<and>
    caches (snd (on_fetch w req Rejected now)) = caches w"
proof -
  have "request_matches_cached_item req q r"
    using assms(4,5,6) by (simp add: request_matches_cached_item_def url_without_fragment_def)
  with assms(3) have "\<exists>e \<in> set c. request_matches_cached_item req (fst e) (snd e)"
    by force
  then have "cache_match c req \<noteq> None"
    by (simp add: cache_match_None_iff [OF assms(1)])
  with assms(2) have "\<exists>e \<in> set (caches w). cache_match (snd e) req \<noteq> None"
    by force
  then have "caches_match (caches w) req \<noteq> None"
    by (simp add: caches_match_None_iff)
  then obtain r' where r': "caches_match (caches w) req = Some r'" by auto
  then obtain earlier hit later where split: "caches w = earlier @ hit # later"
    and none: "\<forall>x \<in> set earlier. cache_match (snd x) req = None"
    and hit: "cache_match (snd hit) req = Some r'"
    unfolding caches_match_first by blast
  from hit obtain before q' after where entry: "snd hit = before @ (q', r') # after"
    and matches: "request_matches_cached_item req q' r'"
    and first: "\<forall>e \<in> set before. \<not> request_matches_cached_item req (fst e) (snd e)"
    unfolding cache_match_Some_iff [OF assms(1)] by blast
  have "\<forall>e \<in> set (concat (map snd earlier) @ before).
      \<not> request_matches_cached_item req (fst e) (snd e)"
    using none first by (auto simp: cache_match_None_iff [OF assms(1)])
  moreover have "request_method q' = ascii ''GET''"
    and "takeWhile (\<lambda>u. u \<noteq> 0x23) (url q') = takeWhile (\<lambda>u. u \<noteq> 0x23) (url req)"
    and "list_all
      (\<lambda>f. f \<noteq> [0x2A] \<and>
         header_list_get (request_headers q') f = header_list_get (request_headers req) f)
      (vary_field_values (headers r'))"
    using matches by (simp_all add: request_matches_cached_item_def url_without_fragment_def)
  moreover have answer: "on_fetch w req Rejected now =
      (RespondWith r', console_log [ascii ''Serving from cache:'', url req] w)"
    using assms(1) r' by (simp add: on_fetch_def)
  moreover have "caches (snd (on_fetch w req Rejected now)) = caches w"
    unfolding answer by (simp add: console_log_def)
  ultimately show ?thesis using split entry by blast
qed

theorem on_fetch_offline_serves_stored_witness:
  "on_fetch
     \<lparr>caches =
        [(ascii ''auto-offline-v0'',
          [(\<lparr>request_method = ascii ''GET'', url = ascii ''https://example.com/other'',
              request_headers = []\<rparr>,
            \<lparr>status = 200, statusText = ascii ''OK'', headers = [], body = ascii ''old''\<rparr>)]),
         (CACHE_NAME,
          [(\<lparr>request_method = ascii ''GET'', url = ascii ''https://example.com/other'',
              request_headers = []\<rparr>,
            \<lparr>status = 200, statusText = ascii ''OK'', headers = [], body = ascii ''other''\<rparr>),
           (\<lparr>request_method = ascii ''GET'', url = ascii ''https://example.com/page#a'',
              request_headers = [(ascii ''Accept'', ascii ''text/html'')]\<rparr>,
            \<lparr>status = 200, statusText = ascii ''OK'',
              headers = [(ascii ''Vary'', ascii ''Accept'')],
              body = ascii ''<h1>Welcome!</h1>''\<rparr>)])],
      trace = []\<rparr>
     \<lparr>request_method = ascii ''GET'', url = ascii ''https://example.com/page#b'',
       request_headers = [(ascii ''Accept'', ascii ''text/html'')]\<rparr>
     Rejected (ascii ''2026-01-01T00:00:00.000Z'') =
   (RespondWith
      \<lparr>status = 200, statusText = ascii ''OK'', headers = [(ascii ''Vary'', ascii ''Accept'')],
        body = ascii ''<h1>Welcome!</h1>''\<rparr>,
    \<lparr>caches =
        [(ascii ''auto-offline-v0'',
          [(\<lparr>request_method = ascii ''GET'', url = ascii ''https://example.com/other'',
              request_headers = []\<rparr>,
            \<lparr>status = 200, statusText = ascii ''OK'', headers = [], body = ascii ''old''\<rparr>)]),
         (CACHE_NAME,
          [(\<lparr>request_method = ascii ''GET'', url = ascii ''https://example.com/other'',
              request_headers = []\<rparr>,
            \<lparr>status = 200, statusText = ascii ''OK'', headers = [], body = ascii ''other''\<rparr>),
           (\<lparr>request_method = ascii ''GET'', url = ascii ''https://example.com/page#a'',
              request_headers = [(ascii ''Accept'', ascii ''text/html'')]\<rparr>,
            \<lparr>status = 200, statusText = ascii ''OK'',
              headers = [(ascii ''Vary'', ascii ''Accept'')],
              body = ascii ''<h1>Welcome!</h1>''\<rparr>)])],
      trace = [ConsoleLog [ascii ''Serving from cache:'', ascii ''https://example.com/page#b'']]\<rparr>)"
proof -
  let ?o = "\<lparr>request_method = ascii ''GET'', url = ascii ''https://example.com/other'',
    request_headers = []\<rparr>"
  let ?q = "\<lparr>request_method = ascii ''GET'', url = ascii ''https://example.com/page#a'',
    request_headers = [(ascii ''Accept'', ascii ''text/html'')]\<rparr>"
  let ?req = "\<lparr>request_method = ascii ''GET'', url = ascii ''https://example.com/page#b'',
    request_headers = [(ascii ''Accept'', ascii ''text/html'')]\<rparr>"
  let ?old = "\<lparr>status = 200, statusText = ascii ''OK'', headers = [], body = ascii ''old''\<rparr>"
  let ?other = "\<lparr>status = 200, statusText = ascii ''OK'', headers = [], body = ascii ''other''\<rparr>"
  let ?r = "\<lparr>status = 200, statusText = ascii ''OK'',
    headers = [(ascii ''Vary'', ascii ''Accept'')], body = ascii ''<h1>Welcome!</h1>''\<rparr>"
  let ?c = "[(?o, ?other), (?q, ?r)]"
  let ?w = "\<lparr>caches = [(ascii ''auto-offline-v0'', [(?o, ?old)]), (CACHE_NAME, ?c)],
    trace = []\<rparr>"
  let ?now = "ascii ''2026-01-01T00:00:00.000Z''"
  have 1: "request_method ?req = ascii ''GET''" by simp
  have 2: "(CACHE_NAME, ?c) \<in> set (caches ?w)" by simp
  have 3: "(?q, ?r) \<in> set ?c" by simp
  have 4: "request_method ?q = ascii ''GET''" by simp
  have 5: "takeWhile (\<lambda>u. u \<noteq> 0x23) (url ?q) = takeWhile (\<lambda>u. u \<noteq> 0x23) (url ?req)"
    by (simp add: url_examples)
  have 6: "list_all
      (\<lambda>f. f \<noteq> [0x2A] \<and>
         header_list_get (request_headers ?q) f = header_list_get (request_headers ?req) f)
      (vary_field_values (headers ?r))"
    by (simp add: header_examples) (simp add: ascii_def)
  from on_fetch_offline_serves_stored [OF 1 2 3 4 5 6, of ?now]
  obtain earlier hit later before q' r' after where h: "caches ?w = earlier @ hit # later"
    "snd hit = before @ (q', r') # after"
    "takeWhile (\<lambda>u. u \<noteq> 0x23) (url q') = takeWhile (\<lambda>u. u \<noteq> 0x23) (url ?req)"
    "on_fetch ?w ?req Rejected ?now =
      (RespondWith r', console_log [ascii ''Serving from cache:'', url ?req] ?w)"
    by blast
  from h(1) have "hit \<in> set (caches ?w)"
    by (metis in_set_conv_decomp)
  moreover from h(2) have "(q', r') \<in> set (snd hit)" by simp
  ultimately have "(q', r') = (?o, ?old) \<or> (q', r') = (?o, ?other) \<or> (q', r') = (?q, ?r)"
    by auto
  moreover have "takeWhile (\<lambda>u. u \<noteq> 0x23) (url ?o) \<noteq> takeWhile (\<lambda>u. u \<noteq> 0x23) (url ?req)"
    by (simp add: url_examples ascii_eq_iff)
  ultimately have "r' = ?r" using h(3) by auto
  with h(4) show ?thesis by (simp add: console_log_def)
qed

text \<open>
  C3 as stated fails. The request is identified there by method and URL, the cache also
  compares the headers that the stored response's \<open>Vary\<close> header names. The listener
  stores the response to a GET request for \<open>https://example.com/data\<close> that accepts
  HTML; the response varies with \<open>Accept\<close>. A later GET request for the same URL that
  accepts JSON fails: the entry of its method and URL is in the cache, and the listener
  answers with the plain offline response.
\<close>

theorem stored_identity_not_served_counterexample:
  "caches (snd (on_fetch \<lparr>caches = [], trace = []\<rparr>
     \<lparr>request_method = ascii ''GET'', url = ascii ''https://example.com/data'',
       request_headers = [(ascii ''Accept'', ascii ''text/html'')]\<rparr>
     (Resolved \<lparr>status = 200, statusText = ascii ''OK'',
        headers = [(ascii ''Vary'', ascii ''Accept'')], body = ascii ''<p>data</p>''\<rparr>)
     (ascii ''2026-01-01T00:00:00.000Z''))) =
   [(CACHE_NAME,
      [(\<lparr>request_method = ascii ''GET'', url = ascii ''https://example.com/data'',
          request_headers = [(ascii ''Accept'', ascii ''text/html'')]\<rparr>,
        \<lparr>status = 200, statusText = ascii ''OK'',
          headers = [(ascii ''Vary'', ascii ''Accept'')], body = ascii ''<p>data</p>''\<rparr>)])] \<and>
   fst (on_fetch
     (snd (on_fetch \<lparr>caches = [], trace = []\<rparr>
       \<lparr>request_method = ascii ''GET'', url = ascii ''https://example.com/data'',
         request_headers = [(ascii ''Accept'', ascii ''text/html'')]\<rparr>
       (Resolved \<lparr>status = 200, statusText = ascii ''OK'',
          headers = [(ascii ''Vary'', ascii ''Accept'')], body = ascii ''<p>data</p>''\<rparr>)
       (ascii ''2026-01-01T00:00:00.000Z'')))
     \<lparr>request_method = ascii ''GET'', url = ascii ''https://example.com/data'',
       request_headers = [(ascii ''Accept'', ascii ''application/json'')]\<rparr>
     Rejected (ascii ''2026-01-01T00:05:00.000Z'')) =
   RespondWith
     \<lparr>status = 503, statusText = ascii ''Service Unavailable'',
      headers = [(ascii ''content-type'', ascii ''text/plain;charset=UTF-8'')],
      body = ascii ''Offline - No cached version available''\<rparr>"
proof -
  let ?q = "\<lparr>request_method = ascii ''GET'', url = ascii ''https://example.com/data'',
    request_headers = [(ascii ''Accept'', ascii ''text/html'')]\<rparr>"
  let ?req = "\<lparr>request_method = ascii ''GET'', url = ascii ''https://example.com/data'',
    request_headers = [(ascii ''Accept'', ascii ''application/json'')]\<rparr>"
  let ?r = "\<lparr>status = 200, statusText = ascii ''OK'',
    headers = [(ascii ''Vary'', ascii ''Accept'')], body = ascii ''<p>data</p>''\<rparr>"
  let ?w = "\<lparr>caches = [], trace = []\<rparr>"
  have free: "\<not> String_includes (ascii ''https://example.com/data'') (ascii ''/sw.js'')"
    "\<not> String_includes (ascii ''https://example.com/data'') (ascii ''/api/'')"
    by (simp_all add: String_includes_ascii)
  have star: "[0x2A] \<noteq> ascii ''Accept''" by (simp add: ascii_def)
  have put: "cache_put [] ?q ?r = Some [(?q, ?r)]"
    using star by (simp add: cache_put_def url_examples header_examples ascii_eq_iff)
  have stored: "snd (on_fetch ?w ?q (Resolved ?r) (ascii ''2026-01-01T00:00:00.000Z'')) =
      \<lparr>caches = [(CACHE_NAME, [(?q, ?r)])],
       trace = [CachePut CACHE_NAME ?q ?r,
         ConsoleLog [ascii ''Cached:'', ascii ''https://example.com/data'']]\<rparr>"
    using free put
    by (simp add: on_fetch_def response_ok_def console_log_def cache_put_effect_def
        caches_open_put_def caches_open_def caches_keys_def)
  have differ: "\<not> request_matches_cached_item ?req ?q ?r"
    by (simp add: request_matches_cached_item_def header_examples ascii_eq_iff)
  show ?thesis
    unfolding stored using free differ
    by (simp add: on_fetch_def cache_match_def offline_page_response_def new_Response_def)
qed

text \<open>
  C4. The \<open>activate\<close> listener asks for the names of all caches and deletes every cache
  whose name is not \<open>CACHE_NAME\<close>: afterwards exactly the caches of that name remain, with
  their entries. Claiming the clients is the last thing it does, after every deletion.
\<close>

theorem on_activate_keeps_current_generation:
  "caches (on_activate w) = filter (\<lambda>e. fst e = CACHE_NAME) (caches w) \<and>
   (\<exists>es. trace (on_activate w) = trace w @ es @ [ClientsClaim] \<and>
      ClientsClaim \<notin> set es \<and>
      deleted_caches es = filter (\<lambda>n. n \<noteq> CACHE_NAME) (caches_keys (caches w)))"
proof -
  let ?w1 = "console_log [ascii ''SW Activate''] w"
  let ?ns = "caches_keys (caches ?w1)"
  let ?w2 = "foldl delete_old_cache ?w1 ?ns"
  have act: "on_activate w = clients_claim ?w2"
    by (simp add: on_activate_def Let_def)
  have c1: "caches ?w1 = caches w" by (simp add: console_log_def)
  have "caches ?w2 = filter (\<lambda>e. fst e \<notin> set ?ns \<or> fst e = CACHE_NAME) (caches ?w1)"
    by (rule caches_foldl_delete_old_cache)
  also have "\<dots> = filter (\<lambda>e. fst e = CACHE_NAME) (caches w)"
    unfolding c1 by (rule filter_cong) (auto simp: caches_keys_def)
  finally have caches: "caches (on_activate w) = filter (\<lambda>e. fst e = CACHE_NAME) (caches w)"
    by (simp add: act clients_claim_def)
  obtain es where es: "trace ?w2 = trace ?w1 @ es" "ClientsClaim \<notin> set es"
    "deleted_caches es = filter (\<lambda>n. n \<noteq> CACHE_NAME) ?ns"
    using trace_foldl_delete_old_cache [of ?w1 ?ns] by blast
  let ?es = "ConsoleLog [ascii ''SW Activate''] # es"
  have "trace (on_activate w) = trace w @ ?es @ [ClientsClaim]"
    using es(1) by (simp add: act clients_claim_def console_log_def)
  moreover have "ClientsClaim \<notin> set ?es" using es(2) by simp
  moreover have "deleted_caches ?es = filter (\<lambda>n. n \<noteq> CACHE_NAME) (caches_keys (caches w))"
    using es(3) c1 by simp
  ultimately show ?thesis using caches by blast
qed

theorem on_activate_keeps_current_generation_witness:
  "caches (on_activate
      \<lparr>caches =
         [(ascii ''auto-offline-v0'',
            [(\<lparr>request_method = ascii ''GET'', url = ascii ''https://example.com/'',
                request_headers = []\<rparr>,
              \<lparr>status = 200, statusText = ascii ''OK'', headers = [], body = ascii ''old''\<rparr>)]),
          (CACHE_NAME,
            [(\<lparr>request_method = ascii ''GET'', url = ascii ''https://example.com/'',
                request_headers = []\<rparr>,
              \<lparr>status = 200, statusText = ascii ''OK'', headers = [], body = ascii ''new''\<rparr>)])],
       trace = []\<rparr>) =
     [(CACHE_NAME,
        [(\<lparr>request_method = ascii ''GET'', url = ascii ''https://example.com/'',
                request_headers = []\<rparr>,
          \<lparr>status = 200, statusText = ascii ''OK'', headers = [], body = ascii ''new''\<rparr>)])] \<and>
   (\<exists>es. trace (on_activate
      \<lparr>caches =
         [(ascii ''auto-offline-v0'',
            [(\<lparr>request_method = ascii ''GET'', url = ascii ''https://example.com/'',
                request_headers = []\<rparr>,
              \<lparr>status = 200, statusText = ascii ''OK'', headers = [], body = ascii ''old''\<rparr>)]),
          (CACHE_NAME,
            [(\<lparr>request_method = ascii ''GET'', url = ascii ''https://example.com/'',
                request_headers = []\<rparr>,
              \<lparr>status = 200, statusText = ascii ''OK'', headers = [], body = ascii ''new''\<rparr>)])],
       trace = []\<rparr>) = es @ [ClientsClaim] \<and>
      ClientsClaim \<notin> set es \<and>
      deleted_caches es = [ascii ''auto-offline-v0''])"
proof -
  have "ascii ''auto-offline-v0'' \<noteq> CACHE_NAME"
    by (simp add: CACHE_NAME_def ascii_eq_iff)
  then show ?thesis
    using on_activate_keeps_current_generation [of "\<lparr>caches =
         [(ascii ''auto-offline-v0'',
            [(\<lparr>request_method = ascii ''GET'', url = ascii ''https://example.com/'',
                request_headers = []\<rparr>,
              \<lparr>status = 200, statusText = ascii ''OK'', headers = [], body = ascii ''old''\<rparr>)]),
          (CACHE_NAME,
            [(\<lparr>request_method = ascii ''GET'', url = ascii ''https://example.com/'',
                request_headers = []\<rparr>,
              \<lparr>status = 200, statusText = ascii ''OK'', headers = [], body = ascii ''new''\<rparr>)])],
       trace = []\<rparr>"]
    by (simp add: caches_keys_def)
qed

text \<open>The two responses that the fetch listener makes up, written out.\<close>

lemma offline_page_response_eq:
  "offline_page_response =
     \<lparr>status = 503, statusText = ascii ''Service Unavailable'',
      headers = [(ascii ''content-type'', ascii ''text/plain;charset=UTF-8'')],
      body = ascii ''Offline - No cached version available''\<rparr>"
  by (simp add: offline_page_response_def new_Response_def)

lemma ascii_lowercase_Content_Type: "ascii_lowercase (ascii ''Content-Type'') = ascii ''content-type''"
  by (simp add: ascii_lowercase_def ascii_def)

lemma QuoteJSONString_error: "QuoteJSONString (ascii ''error'') = ascii ''\"error\"''"
  by (simp add: QuoteJSONString_def ascii_def quote_unit_def is_leading_surrogate_def
      is_trailing_surrogate_def)

lemma QuoteJSONString_Offline: "QuoteJSONString (ascii ''Offline'') = ascii ''\"Offline\"''"
  by (simp add: QuoteJSONString_def ascii_def quote_unit_def is_leading_surrogate_def
      is_trailing_surrogate_def)

lemma QuoteJSONString_message: "QuoteJSONString (ascii ''message'') = ascii ''\"message\"''"
  by (simp add: QuoteJSONString_def ascii_def quote_unit_def is_leading_surrogate_def
      is_trailing_surrogate_def)

lemma QuoteJSONString_No_cached:
  "QuoteJSONString (ascii ''No cached data available'') = ascii ''\"No cached data available\"''"
  by (simp add: QuoteJSONString_def ascii_def quote_unit_def is_leading_surrogate_def
      is_trailing_surrogate_def)

lemma QuoteJSONString_timestamp: "QuoteJSONString (ascii ''timestamp'') = ascii ''\"timestamp\"''"
  by (simp add: QuoteJSONString_def ascii_def quote_unit_def is_leading_surrogate_def
      is_trailing_surrogate_def)

lemma ascii_append: "ascii (s @ t) = ascii s @ ascii t"
  by (simp add: ascii_def)

lemma offline_api_response_eq:
  "offline_api_response now =
     \<lparr>status = 503, statusText = [],
      headers = [(ascii ''Content-Type'', ascii ''application/json'')],
      body = ascii ''{\"error\":\"Offline\",\"message\":\"No cached data available\",\"timestamp\":'' @
        QuoteJSONString now @ ascii ''}''\<rparr>"
proof -
  have "JSON_stringify
          [(ascii ''error'', ascii ''Offline''),
           (ascii ''message'', ascii ''No cached data available''),
           (ascii ''timestamp'', now)] =
    ascii ''{\"error\":\"Offline\",\"message\":\"No cached data available\",\"timestamp\":'' @
        QuoteJSONString now @ ascii ''}''"
    unfolding JSON_stringify_def json_members.simps fst_conv snd_conv
      QuoteJSONString_error QuoteJSONString_Offline QuoteJSONString_message
      QuoteJSONString_No_cached QuoteJSONString_timestamp
    by (simp add: ascii_def)
  then show ?thesis
    by (simp add: offline_api_response_def new_Response_def ascii_lowercase_Content_Type)
qed

text \<open>Containment and paths of the example URLs.\<close>

lemma contains_ascii:
  "(\<exists>a b. ascii s = a @ ascii m @ b) \<longleftrightarrow> StringIndexOf s m \<noteq> None"
  using String_includes_iff [of "ascii s" "ascii m"] by (simp add: String_includes_ascii)

lemma QuoteJSONString_example:
  "QuoteJSONString (ascii ''2026-01-01T00:00:00.000Z'') = ascii ''\"2026-01-01T00:00:00.000Z\"''"
  by (simp add: QuoteJSONString_def ascii_def quote_unit_def is_leading_surrogate_def
      is_trailing_surrogate_def)

lemma url_pathname_examples:
  "url_pathname (ascii ''https://example.com/sw.json'') = ascii ''/sw.json''"
  "url_pathname (ascii ''https://example.com/page?next=/api/'') = ascii ''/page''"
  "url_pathname (ascii ''https://example.com/page?from=/sw.js'') = ascii ''/page''"
  "url_pathname (ascii ''https://example.com/page'') = ascii ''/page''"
  by (simp_all add: url_pathname_def StringIndexOf_ascii) (simp_all add: ascii_def)

text \<open>
  C2. The listener answers a GET request that fails and is not stored with a response of
  status 503: JSON with the fields \<open>error\<close> (\<open>Offline\<close>), \<open>message\<close> and
  \<open>timestamp\<close> for what its comment calls API calls, plain text with the reason phrase
  \<open>Service Unavailable\<close> for other requests. The claim makes that a matter of the request
  path; the code tests the whole URL for the text \<open>/api/\<close>. Of two GET requests with
  the same path \<open>/page\<close>, neither of them stored, the one whose query mentions
  \<open>/api/\<close> gets the JSON body and the other one the plain text.
\<close>

theorem on_fetch_api_in_query_gets_json:
  "url_pathname (ascii ''https://example.com/page?next=/api/'') = ascii ''/page'' \<and>
   url_pathname (ascii ''https://example.com/page'') = ascii ''/page'' \<and>
   on_fetch \<lparr>caches = [], trace = []\<rparr>
     \<lparr>request_method = ascii ''GET'', url = ascii ''https://example.com/page?next=/api/'',
       request_headers = []\<rparr>
     Rejected (ascii ''2026-01-01T00:00:00.000Z'') =
   (RespondWith
     \<lparr>status = 503, statusText = [],
      headers = [(ascii ''Content-Type'', ascii ''application/json'')],
      body = ascii ''{\"error\":\"Offline\",\"message\":\"No cached data available\",\"timestamp\":\"2026-01-01T00:00:00.000Z\"}''\<rparr>,
    \<lparr>caches = [], trace = []\<rparr>) \<and>
   on_fetch \<lparr>caches = [], trace = []\<rparr>
     \<lparr>request_method = ascii ''GET'', url = ascii ''https://example.com/page'',
       request_headers = []\<rparr>
     Rejected (ascii ''2026-01-01T00:00:00.000Z'') =
   (RespondWith
     \<lparr>status = 503, statusText = ascii ''Service Unavailable'',
      headers = [(ascii ''content-type'', ascii ''text/plain;charset=UTF-8'')],
      body = ascii ''Offline - No cached version available''\<rparr>,
    \<lparr>caches = [], trace = []\<rparr>)"
proof -
  have 1: "String_includes (ascii ''https://example.com/page?next=/api/'') (ascii ''/api/'')"
    by (simp add: String_includes_ascii)
  have 2: "\<not> String_includes (ascii ''https://example.com/page'') (ascii ''/api/'')"
    by (simp add: String_includes_ascii)
  have 3: "ascii ''{\"error\":\"Offline\",\"message\":\"No cached data available\",\"timestamp\":'' @
      QuoteJSONString (ascii ''2026-01-01T00:00:00.000Z'') @ ascii ''}'' =
    ascii ''{\"error\":\"Offline\",\"message\":\"No cached data available\",\"timestamp\":\"2026-01-01T00:00:00.000Z\"}''"
    unfolding QuoteJSONString_example by (simp add: ascii_def)
  show ?thesis
    using 1 2 3
    by (simp add: url_pathname_examples on_fetch_def offline_api_response_eq
        offline_page_response_eq)
qed

text \<open>
  A put that the runtime rejects: for a response of status 206 the listener calls
  \<open>put\<close> and writes its line to the console, the cache has been opened, and nothing
  is stored.
\<close>

lemma on_fetch_partial_content_not_stored:
  "on_fetch \<lparr>caches = [], trace = []\<rparr>
     \<lparr>request_method = ascii ''GET'', url = ascii ''https://example.com/data'',
       request_headers = []\<rparr>
     (Resolved \<lparr>status = 206, statusText = ascii ''Partial Content'', headers = [],
        body = ascii ''<p>''\<rparr>)
     (ascii ''2026-01-01T00:00:00.000Z'') =
   (RespondWith \<lparr>status = 206, statusText = ascii ''Partial Content'', headers = [],
        body = ascii ''<p>''\<rparr>,
    \<lparr>caches = [(CACHE_NAME, [])],
      trace = [CachePut CACHE_NAME
          \<lparr>request_method = ascii ''GET'', url = ascii ''https://example.com/data'',
            request_headers = []\<rparr>
          \<lparr>status = 206, statusText = ascii ''Partial Content'', headers = [],
            body = ascii ''<p>''\<rparr>,
        ConsoleLog [ascii ''Cached:'', ascii ''https://example.com/data'']]\<rparr>)"
proof -
  have "\<not> String_includes (ascii ''https://example.com/data'') (ascii ''/sw.js'')"
    by (simp add: String_includes_ascii)
  then show ?thesis
    by (simp add: on_fetch_def response_ok_def console_log_def cache_put_effect_def
        caches_open_put_def caches_open_def caches_keys_def cache_put_def url_examples
        ascii_eq_iff)
qed

text \<open>
  C1. The listener answers a GET request whose fetch succeeds with the live response,
  and it puts a copy into the cache \<open>CACHE_NAME\<close> when the status is successful, except,
  as its comment says, for the service worker itself. The code does not ask whether the
  request is for the script's own path \<open>/sw.js\<close>, it asks whether the URL contains
  that text. A successful GET response for \<open>https://example.com/sw.json\<close>, whose path
  is \<open>/sw.json\<close> and not the script's, is returned and not stored: the world after
  the listener is the world before it, and a later lookup of the request finds nothing.
\<close>

theorem on_fetch_sw_json_not_stored:
  "url_pathname (ascii ''https://example.com/sw.json'') = ascii ''/sw.json'' \<and>
   url_pathname (ascii ''https://example.com/sw.json'') \<noteq> ascii ''/sw.js'' \<and>
   response_ok \<lparr>status = 200, statusText = ascii ''OK'',
     headers = [(ascii ''content-type'', ascii ''application/json'')], body = ascii ''{}''\<rparr> \<and>
   on_fetch \<lparr>caches = [], trace = []\<rparr>
     \<lparr>request_method = ascii ''GET'', url = ascii ''https://example.com/sw.json'',
       request_headers = []\<rparr>
     (Resolved \<lparr>status = 200, statusText = ascii ''OK'',
        headers = [(ascii ''content-type'', ascii ''application/json'')], body = ascii ''{}''\<rparr>)
     (ascii ''2026-01-01T00:00:00.000Z'') =
   (RespondWith \<lparr>status = 200, statusText = ascii ''OK'',
        headers = [(ascii ''content-type'', ascii ''application/json'')], body = ascii ''{}''\<rparr>,
    \<lparr>caches = [], trace = []\<rparr>) \<and>
   caches_match
     (caches (snd (on_fetch \<lparr>caches = [], trace = []\<rparr>
       \<lparr>request_method = ascii ''GET'', url = ascii ''https://example.com/sw.json'',
         request_headers = []\<rparr>
       (Resolved \<lparr>status = 200, statusText = ascii ''OK'',
          headers = [(ascii ''content-type'', ascii ''application/json'')], body = ascii ''{}''\<rparr>)
       (ascii ''2026-01-01T00:00:00.000Z''))))
     \<lparr>request_method = ascii ''GET'', url = ascii ''https://example.com/sw.json'',
       request_headers = []\<rparr> = None"
proof -
  have "String_includes (ascii ''https://example.com/sw.json'') (ascii ''/sw.js'')"
    by (simp add: String_includes_ascii)
  then show ?thesis
    by (simp add: url_pathname_examples ascii_eq_iff on_fetch_def response_ok_def)
qed

text \<open>
  C9. Both decisions of the fetch listener are by containment of a text in the whole
  request URL. For a GET request that is answered, the listener calls \<open>put\<close> exactly
  when the status is successful and the URL does not contain \<open>/sw.js\<close> anywhere, and
  leaves the world alone otherwise; a GET request that fails and that no cache matches
  gets the JSON body exactly when the URL contains \<open>/api/\<close> anywhere.
\<close>

theorem on_fetch_decides_by_containment:
  assumes "request_method req = ascii ''GET''"
  shows "on_fetch w req (Resolved resp) now =
      (RespondWith resp,
       if response_ok resp \<and> \<not> (\<exists>a b. url req = a @ ascii ''/sw.js'' @ b)
       then console_log [ascii ''Cached:'', url req] (cache_put_effect CACHE_NAME req resp w)
       else w) \<and>
    (caches_match (caches w) req = None \<longrightarrow>
       on_fetch w req Rejected now =
         (RespondWith
            (if \<exists>a b. url req = a @ ascii ''/api/'' @ b
             then offline_api_response now else offline_page_response),
          w))"
  using assms unfolding String_includes_iff [symmetric]
  by (simp add: on_fetch_def)

theorem on_fetch_decides_by_containment_witness:
  "url_pathname (ascii ''https://example.com/page?from=/sw.js'') = ascii ''/page'' \<and>
   on_fetch \<lparr>caches = [], trace = []\<rparr>
     \<lparr>request_method = ascii ''GET'', url = ascii ''https://example.com/page?from=/sw.js'',
       request_headers = []\<rparr>
     (Resolved \<lparr>status = 200, statusText = ascii ''OK'', headers = [], body = ascii ''Hi''\<rparr>)
     (ascii ''2026-01-01T00:00:00.000Z'') =
   (RespondWith \<lparr>status = 200, statusText = ascii ''OK'', headers = [], body = ascii ''Hi''\<rparr>,
    \<lparr>caches = [], trace = []\<rparr>) \<and>
   caches_match (caches \<lparr>caches = [], trace = []\<rparr>)
     \<lparr>request_method = ascii ''GET'', url = ascii ''https://example.com/page?from=/sw.js'',
       request_headers = []\<rparr> =
     None \<and>
   on_fetch \<lparr>caches = [], trace = []\<rparr>
     \<lparr>request_method = ascii ''GET'', url = ascii ''https://example.com/page?from=/sw.js'',
       request_headers = []\<rparr>
     Rejected (ascii ''2026-01-01T00:00:00.000Z'') =
   (RespondWith offline_page_response, \<lparr>caches = [], trace = []\<rparr>) \<and>
   url_pathname (ascii ''https://example.com/page?next=/api/'') = ascii ''/page'' \<and>
   on_fetch \<lparr>caches = [], trace = []\<rparr>
     \<lparr>request_method = ascii ''GET'', url = ascii ''https://example.com/page?next=/api/'',
       request_headers = []\<rparr>
     Rejected (ascii ''2026-01-01T00:00:00.000Z'') =
   (RespondWith (offline_api_response (ascii ''2026-01-01T00:00:00.000Z'')),
    \<lparr>caches = [], trace = []\<rparr>)"
proof -
  let ?sw = "\<lparr>request_method = ascii ''GET'', url = ascii ''https://example.com/page?from=/sw.js'',
       request_headers = []\<rparr>"
  let ?api = "\<lparr>request_method = ascii ''GET'', url = ascii ''https://example.com/page?next=/api/'',
       request_headers = []\<rparr>"
  let ?w = "\<lparr>caches = [], trace = []\<rparr>"
  let ?now = "ascii ''2026-01-01T00:00:00.000Z''"
  let ?resp = "\<lparr>status = 200, statusText = ascii ''OK'', headers = [], body = ascii ''Hi''\<rparr>"
  have 1: "request_method ?sw = ascii ''GET''" by simp
  have 2: "request_method ?api = ascii ''GET''" by simp
  have 3: "\<exists>a b. ascii ''https://example.com/page?from=/sw.js'' = a @ ascii ''/sw.js'' @ b"
    by (simp add: contains_ascii)
  have 4: "\<not> (\<exists>a b. ascii ''https://example.com/page?from=/sw.js'' = a @ ascii ''/api/'' @ b)"
    by (simp add: contains_ascii)
  have 5: "\<exists>a b. ascii ''https://example.com/page?next=/api/'' = a @ ascii ''/api/'' @ b"
    by (simp add: contains_ascii)
  have 6: "caches_match (caches ?w) ?sw = None" "caches_match (caches ?w) ?api = None"
    by simp_all
  have a: "on_fetch ?w ?sw (Resolved ?resp) ?now = (RespondWith ?resp, ?w)"
    using on_fetch_decides_by_containment [OF 1, of ?w ?resp ?now] by (simp add: 3)
  have b: "on_fetch ?w ?sw Rejected ?now = (RespondWith offline_page_response, ?w)"
    using on_fetch_decides_by_containment [OF 1, of ?w ?resp ?now] 4 by simp
  have c: "on_fetch ?w ?api Rejected ?now = (RespondWith (offline_api_response ?now), ?w)"
    using on_fetch_decides_by_containment [OF 2, of ?w ?resp ?now] by (simp add: 5)
  from a b c 6 show ?thesis
    by (simp add: url_pathname_examples)
qed

text \<open>The text of the policy script: its length, and lines that it holds.\<close>

lemma length_js_lines: "length (js_lines ls) = sum_list (map length ls) + (length ls - 1)"
  by (induction ls rule: js_lines.induct) auto

lemma length_ascii: "length (ascii s) = length s"
  by (simp add: ascii_def)

lemma length_policyScript: "length policyScript = 2540"
  unfolding policyScript_def length_js_lines policyScript_lines_def
  by (simp add: length_ascii)

lemma js_lines_holds_line: "l \<in> set ls \<Longrightarrow> \<exists>a b. js_lines ls = a @ l @ b"
proof (induction ls rule: js_lines.induct)
  case 1
  then show ?case by simp
next
  case (2 k)
  then have "js_lines [k] = [] @ l @ []" by simp
  then show ?case by blast
next
  case (3 k k' ls)
  show ?case
  proof (cases "l = k")
    case True
    then have "js_lines (k # k' # ls) = [] @ l @ (0x0A # js_lines (k' # ls))" by simp
    then show ?thesis by blast
  next
    case False
    with 3 obtain a b where "js_lines (k' # ls) = a @ l @ b" by auto
    then have "js_lines (k # k' # ls) = (k @ 0x0A # a) @ l @ b" by simp
    then show ?thesis by blast
  qed
qed

lemma policyScript_listeners:
  "ascii ''const CACHE_NAME = 'auto-offline-v1';'' \<in> set policyScript_lines"
  "ascii ''self.addEventListener('install', event => {'' \<in> set policyScript_lines"
  "ascii ''self.addEventListener('activate', event => {'' \<in> set policyScript_lines"
  "ascii ''self.addEventListener('fetch', event => {'' \<in> set policyScript_lines"
  "ascii ''self.addEventListener('message', event => {'' \<in> set policyScript_lines"
  unfolding policyScript_lines_def by (simp_all add: ascii_eq_iff)

text \<open>
  C8. The generator has no parameter and reads nothing of the state around the call: in
  whatever state it is called, it returns the same text, character for character, the
  fixed policy script of 2540 code units. That text declares the cache name of the
  listeners, \<open>const CACHE_NAME = 'auto-offline-v1';\<close>, and registers the listeners for
  \<open>install\<close>, \<open>activate\<close>, \<open>fetch\<close> and \<open>message\<close>.
\<close>

theorem generateServiceWorker_deterministic:
  "generateServiceWorker surroundings = generateServiceWorker surroundings' \<and>
   generateServiceWorker surroundings = policyScript \<and>
   length (generateServiceWorker surroundings) = 2540 \<and>
   (\<exists>a b. generateServiceWorker surroundings =
      a @ ascii ''const CACHE_NAME = '' @ [0x27] @ CACHE_NAME @ [0x27, 0x3B] @ b) \<and>
   (\<exists>a b. generateServiceWorker surroundings =
      a @ ascii ''self.addEventListener('install', event => {'' @ b) \<and>
   (\<exists>a b. generateServiceWorker surroundings =
      a @ ascii ''self.addEventListener('activate', event => {'' @ b) \<and>
   (\<exists>a b. generateServiceWorker surroundings =
      a @ ascii ''self.addEventListener('fetch', event => {'' @ b) \<and>
   (\<exists>a b. generateServiceWorker surroundings =
      a @ ascii ''self.addEventListener('message', event => {'' @ b)"
proof -
  have holds: "\<exists>a b. generateServiceWorker surroundings = a @ l @ b"
    if "l \<in> set policyScript_lines" for l
    using js_lines_holds_line [OF that]
    by (simp add: generateServiceWorker_def policyScript_def)
  have "ascii ''const CACHE_NAME = 'auto-offline-v1';'' =
      ascii ''const CACHE_NAME = '' @ [0x27] @ CACHE_NAME @ [0x27, 0x3B]"
    by (simp add: ascii_def CACHE_NAME_def)
  with holds [OF policyScript_listeners(1)]
  have "\<exists>a b. generateServiceWorker surroundings =
      a @ ascii ''const CACHE_NAME = '' @ [0x27] @ CACHE_NAME @ [0x27, 0x3B] @ b"
    by simp
  moreover have "generateServiceWorker surroundings = generateServiceWorker surroundings'"
    and "generateServiceWorker surroundings = policyScript"
    and "length (generateServiceWorker surroundings) = 2540"
    by (simp_all add: generateServiceWorker_def length_policyScript)
  ultimately show ?thesis
    using holds [OF policyScript_listeners(2)] holds [OF policyScript_listeners(3)]
      holds [OF policyScript_listeners(4)] holds [OF policyScript_listeners(5)]
    by blast
qed

end
